theory Spec2Isabelle
  imports Complex_Main "HOL-Library.Multiset"
begin

section \<open>The chain client and the trace of remote calls\<close>

text \<open>
  Every call on the SDK either returns a value or raises; \<open>Raises\<close> stands for any
  Python \<^verbatim>\<open>Exception\<close>. The client's answers change while the program runs, so
  the height query is indexed by the number of height queries made before it and the
  membership queries by the tick of the watcher that issues them. The trace records the
  calls of the set-up phase and of the submitting tasks, and the sleeps.
\<close>

datatype 'a resp = Raises | Returns 'a

datatype pyerr = RemoteError | ZeroDivisionError | OverflowError

datatype event =
    Connect
  | CostQuery
  | HeightQuery
  | MetagraphQuery
  | Sleep rat
  | BalanceQuery string
  | Submit string

record 'v subtensor =
  connect :: "unit resp"
  get_subnet_burn_cost :: "'v resp"
  get_current_block :: "nat \<Rightarrow> int option resp"
  metagraph_tempo :: "int resp"
  get_balance :: "string \<Rightarrow> 'v option resp"
  burned_register :: "string \<Rightarrow> string + bool"
  get_uid_for_hotkey_on_subnet :: "nat \<Rightarrow> string \<Rightarrow> int option resp"
  is_hotkey_registered_on_subnet :: "nat \<Rightarrow> string \<Rightarrow> bool resp"

section \<open>main.py: waiting for the next epoch start\<close>

text \<open>\<^verbatim>\<open>_get_current_block\<close>: any exception of the SDK call becomes \<^verbatim>\<open>None\<close>.
  The argument \<open>tr\<close> is the trace so far; the query answered is the one numbered by
  the height queries already in it.\<close>

definition height_queries :: "event list \<Rightarrow> nat" where
  "height_queries tr = length (filter (\<lambda>e. e = HeightQuery) tr)"

definition current_block :: "'v subtensor \<Rightarrow> event list \<Rightarrow> int option" where
  "current_block st tr =
     (case get_current_block st (height_queries tr) of
        Raises \<Rightarrow> None
      | Returns b \<Rightarrow> b)"

text \<open>The three assignments of lines 114 to 116.\<close>

definition blocks_until :: "int \<Rightarrow> int \<Rightarrow> int" where
  "blocks_until block epoch_length = (epoch_length - block mod epoch_length) mod epoch_length"

definition target_block :: "int \<Rightarrow> int \<Rightarrow> int" where
  "target_block block epoch_length = block + blocks_until block epoch_length"

text \<open>The coarse loop (lines 121 to 127) and the fine loop (lines 129 to 135). A loop
  that polls forever has the value \<open>None\<close>.\<close>

partial_function (option) coarse_wait ::
  "'v subtensor \<Rightarrow> int \<Rightarrow> event list \<Rightarrow> event list option" where
  "coarse_wait st target tr =
     (case current_block st tr of
        None \<Rightarrow> Some (tr @ [HeightQuery])
      | Some now_block \<Rightarrow>
          if now_block \<ge> target - 1 then Some (tr @ [HeightQuery])
          else coarse_wait st target (tr @ [HeightQuery, Sleep 2]))"

partial_function (option) fine_wait ::
  "'v subtensor \<Rightarrow> int \<Rightarrow> event list \<Rightarrow> event list option" where
  "fine_wait st target tr =
     (case current_block st tr of
        None \<Rightarrow> Some (tr @ [HeightQuery])
      | Some now_block \<Rightarrow>
          if now_block \<ge> target then Some (tr @ [HeightQuery])
          else fine_wait st target (tr @ [HeightQuery, Sleep (1 / 100)]))"

text \<open>\<^verbatim>\<open>_wait_for_next_epoch_start\<close>. The result is \<open>None\<close> when a polling loop
  never ends, \<open>Some (Inl e, tr)\<close> when the exception \<open>e\<close> leaves the function and
  \<open>Some (Inr (), tr)\<close> when it returns; \<open>tr\<close> is the trace of what it did.\<close>

definition wait_for_next_epoch_start ::
  "'v subtensor \<Rightarrow> event list \<Rightarrow> ((pyerr + unit) \<times> event list) option" where
  "wait_for_next_epoch_start st tr0 =
     (let block = current_block st tr0;
          tr1 = tr0 @ [HeightQuery, MetagraphQuery]
      in case metagraph_tempo st of
           Raises \<Rightarrow> Some (Inl RemoteError, tr1)
         | Returns epoch_length \<Rightarrow>
             (case block of
                None \<Rightarrow> Some (Inr (), tr1)
              | Some b \<Rightarrow>
                  if epoch_length = 0 then Some (Inl ZeroDivisionError, tr1)
                  else if blocks_until b epoch_length = 0 then Some (Inr (), tr1)
                  else (case coarse_wait st (target_block b epoch_length) tr1 of
                          None \<Rightarrow> None
                        | Some tr2 \<Rightarrow>
                            (case fine_wait st (target_block b epoch_length) tr2 of
                               None \<Rightarrow> None
                             | Some tr3 \<Rightarrow> Some (Inr (), tr3)))))"

definition sleeps :: "event list \<Rightarrow> rat list" where
  "sleeps tr = concat (map (\<lambda>e. case e of Sleep d \<Rightarrow> [d] | _ \<Rightarrow> []) tr)"

section \<open>main.py: balances\<close>

text \<open>A Python float is a finite rational, an infinity or NaN; \<open>float_lt\<close> is its
  \<^verbatim>\<open><\<close>, false whenever an operand is NaN.\<close>

datatype pyfloat = Finite rat | PosInf | NegInf | NaN

fun float_lt :: "pyfloat \<Rightarrow> pyfloat \<Rightarrow> bool" where
  "float_lt NaN _ = False"
| "float_lt _ NaN = False"
| "float_lt (Finite a) (Finite b) = (a < b)"
| "float_lt (Finite a) PosInf = True"
| "float_lt (Finite a) NegInf = False"
| "float_lt PosInf _ = False"
| "float_lt NegInf NegInf = False"
| "float_lt NegInf _ = True"

text \<open>What \<^verbatim>\<open>_compare_balances\<close> asks of the values it is given. The values are
  objects of the SDK, so the three operations are parameters:
  \<open>typed_lt a b\<close> is \<^verbatim>\<open>a < b\<close>, \<open>None\<close> when it raises;
  \<open>tao_float x\<close> is \<^verbatim>\<open>float(x.tao)\<close>, \<open>None\<close> when \<^verbatim>\<open>x\<close> has no usable
  attribute \<^verbatim>\<open>tao\<close> or the conversion raises;
  \<open>str_float x\<close> is \<^verbatim>\<open>float(str(x).split()[0])\<close>, \<open>None\<close> when it raises.\<close>

record 'v pyops =
  typed_lt :: "'v \<Rightarrow> 'v \<Rightarrow> bool option"
  tao_float :: "'v \<Rightarrow> pyfloat option"
  str_float :: "'v \<Rightarrow> pyfloat option"

definition to_float :: "'v pyops \<Rightarrow> 'v \<Rightarrow> pyfloat" where
  "to_float ops x =
     (case tao_float ops x of
        Some f \<Rightarrow> f
      | None \<Rightarrow> (case str_float ops x of Some f \<Rightarrow> f | None \<Rightarrow> Finite 0))"

definition compare_balances :: "'v pyops \<Rightarrow> 'v \<Rightarrow> 'v \<Rightarrow> bool" where
  "compare_balances ops a b =
     (case typed_lt ops a b of
        Some r \<Rightarrow> r
      | None \<Rightarrow> float_lt (to_float ops a) (to_float ops b))"

text \<open>A wallet: its name and the two addresses, \<open>None\<close> where reading the address
  raises.\<close>

record wallet =
  name :: string
  hotkey_ss58 :: "string option"
  coldkeypub_ss58 :: "string option"

definition get_wallet_balance :: "'v subtensor \<Rightarrow> wallet \<Rightarrow> 'v option" where
  "get_wallet_balance st w =
     (case coldkeypub_ss58 w of
        None \<Rightarrow> None
      | Some address \<Rightarrow>
          (case get_balance st address of Raises \<Rightarrow> None | Returns b \<Rightarrow> b))"

definition balance_events :: "wallet \<Rightarrow> event list" where
  "balance_events w =
     (case coldkeypub_ss58 w of None \<Rightarrow> [] | Some address \<Rightarrow> [BalanceQuery address])"

text \<open>Lines 187 to 191 of \<^verbatim>\<open>submit_one\<close>: the attempt goes on when the balance is
  \<^verbatim>\<open>None\<close> or \<^verbatim>\<open>_compare_balances(bal, burn_cost)\<close> is false.\<close>

definition balance_gate :: "'v pyops \<Rightarrow> 'v option \<Rightarrow> 'v \<Rightarrow> bool" where
  "balance_gate ops bal burn_cost =
     (case bal of None \<Rightarrow> True | Some b \<Rightarrow> \<not> compare_balances ops b burn_cost)"

section \<open>main.py: submitting\<close>

datatype info = Res bool | ErrStr string

definition try_register :: "'v subtensor \<Rightarrow> wallet \<Rightarrow> bool \<times> info" where
  "try_register st w =
     (case burned_register st (name w) of
        Inr res \<Rightarrow> (True, Res res)
      | Inl e \<Rightarrow> (False, ErrStr e))"

text \<open>What a task and the dispatching loop read from the clock and the shared event:
  \<open>dispatch_past_end\<close> is \<^verbatim>\<open>time.time() > end_time\<close> at line 206,
  \<open>signal_is_set\<close> and \<open>clock_past_end\<close> are the two tests of line 181.\<close>

record obs =
  dispatch_past_end :: bool
  signal_is_set :: bool
  clock_past_end :: bool

type_synonym attempt = "string \<times> bool \<times> info"

text \<open>\<^verbatim>\<open>submit_one\<close> on the shared list \<^verbatim>\<open>submitted\<close> and the trace; the first
  component is the value returned.\<close>

definition submit_one ::
  "'v pyops \<Rightarrow> 'v subtensor \<Rightarrow> 'v \<Rightarrow> obs \<Rightarrow> wallet \<Rightarrow> attempt list \<times> event list
     \<Rightarrow> info option \<times> attempt list \<times> event list" where
  "submit_one ops st burn_cost ob w s =
     (case s of (submitted, tr) \<Rightarrow>
        if signal_is_set ob \<or> clock_past_end ob then (None, submitted, tr)
        else if \<not> balance_gate ops (get_wallet_balance st w) burn_cost
        then (None, submitted, tr @ balance_events w)
        else (case try_register st w of (ok, info) \<Rightarrow>
                (Some info, submitted @ [(name w, ok, info)],
                 tr @ balance_events w @ [Submit (name w)])))"

text \<open>The loop of lines 205 to 208 stops dispatching at the first wallet for which the
  clock is past the end.\<close>

fun dispatch :: "(wallet \<times> obs) list \<Rightarrow> (wallet \<times> obs) list" where
  "dispatch [] = []"
| "dispatch ((w, ob) # rest) =
     (if dispatch_past_end ob then [] else (w, ob) # dispatch rest)"

text \<open>The tasks of the pool, in the order in which they run \<^verbatim>\<open>submit_one\<close>.\<close>

fun run_tasks ::
  "'v pyops \<Rightarrow> 'v subtensor \<Rightarrow> 'v \<Rightarrow> (wallet \<times> obs) list \<Rightarrow> attempt list \<times> event list
     \<Rightarrow> attempt list \<times> event list" where
  "run_tasks ops st burn_cost [] s = s"
| "run_tasks ops st burn_cost ((w, ob) # rest) s =
     run_tasks ops st burn_cost rest (snd (submit_one ops st burn_cost ob w s))"

definition records_for :: "string \<Rightarrow> attempt list \<Rightarrow> attempt list" where
  "records_for n submitted = filter (\<lambda>r. fst r = n) submitted"

definition submits_for :: "string \<Rightarrow> event list \<Rightarrow> event list" where
  "submits_for n tr = filter (\<lambda>e. e = Submit n) tr"

definition attempted :: "'v pyops \<Rightarrow> 'v subtensor \<Rightarrow> 'v \<Rightarrow> wallet \<times> obs \<Rightarrow> bool" where
  "attempted ops st burn_cost t =
     (case t of (w, ob) \<Rightarrow>
        \<not> signal_is_set ob \<and> \<not> clock_past_end ob \<and>
        balance_gate ops (get_wallet_balance st w) burn_cost)"

section \<open>main.py: watching for success\<close>

record signal =
  success :: "(string \<times> int) option"
  success_event :: bool

definition fresh_signal :: signal where
  "fresh_signal = \<lparr>success = None, success_event = False\<rparr>"

text \<open>Lines 222 to 225, run under \<^verbatim>\<open>success_lock\<close>.\<close>

definition set_success :: "signal \<Rightarrow> string \<times> int \<Rightarrow> signal" where
  "set_success sg p =
     (if \<not> success_event sg then sg\<lparr>success := Some p, success_event := True\<rparr> else sg)"

text \<open>How many of the setters \<open>ps\<close>, taking the lock in this order, find the event
  unset and write.\<close>

fun count_writes :: "signal \<Rightarrow> (string \<times> int) list \<Rightarrow> nat" where
  "count_writes sg [] = 0"
| "count_writes sg (p # ps) =
     (if \<not> success_event sg then 1 else 0) + count_writes (set_success sg p) ps"

definition get_uid_for_hotkey :: "'v subtensor \<Rightarrow> nat \<Rightarrow> string \<Rightarrow> int option" where
  "get_uid_for_hotkey st tick hot_ss58 =
     (case get_uid_for_hotkey_on_subnet st tick hot_ss58 of
        Returns uid \<Rightarrow> uid
      | Raises \<Rightarrow>
          (case is_hotkey_registered_on_subnet st tick hot_ss58 of
             Returns ok \<Rightarrow> if ok then Some 1 else None
           | Raises \<Rightarrow> None))"

text \<open>The \<^verbatim>\<open>for w in wallets\<close> loop of lines 212 to 226, at one tick.\<close>

fun watch_tick :: "'v subtensor \<Rightarrow> nat \<Rightarrow> wallet list \<Rightarrow> signal \<Rightarrow> signal" where
  "watch_tick st tick [] sg = sg"
| "watch_tick st tick (w # rest) sg =
     (case hotkey_ss58 w of
        None \<Rightarrow> watch_tick st tick rest sg
      | Some hot \<Rightarrow>
          (case get_uid_for_hotkey st tick hot of
             None \<Rightarrow> watch_tick st tick rest sg
           | Some uid \<Rightarrow>
               if uid \<noteq> 0 then set_success sg (name w, uid)
               else watch_tick st tick rest sg))"

text \<open>The \<^verbatim>\<open>while\<close> loop of line 211. The clock only moves forward, so
  \<^verbatim>\<open>time.time() < end_time\<close> holds for the first \<open>n\<close> tests and never after.\<close>

fun watch_loop :: "'v subtensor \<Rightarrow> wallet list \<Rightarrow> nat \<Rightarrow> nat \<Rightarrow> signal \<Rightarrow> signal" where
  "watch_loop st wallets 0 tick sg = sg"
| "watch_loop st wallets (Suc n) tick sg =
     (if success_event sg then sg
      else watch_loop st wallets n (Suc tick) (watch_tick st tick wallets sg))"

text \<open>Line 233: the winner that is printed.\<close>

definition winner :: "signal \<Rightarrow> (string \<times> int) option" where
  "winner sg = (if success_event sg \<and> success sg \<noteq> None then success sg else None)"

section \<open>main.py: setting up\<close>

definition COLDKEY_NAMES :: "string list" where
  "COLDKEY_NAMES =
     [''cold_1'', ''cold_2'', ''cold_3'', ''cold_4'', ''cold_5'',
      ''cold_6'', ''cold_7'', ''cold_8'', ''cold_9'', ''cold_10'']"

definition USE_EPOCH_START :: bool where
  "USE_EPOCH_START = True"

text \<open>The keystore: \<^verbatim>\<open>bt.wallet(name=n)\<close> and \<^verbatim>\<open>bt.wallet(name=n, hotkey=n)\<close>.\<close>

record provider =
  wallet_by_name :: "string \<Rightarrow> wallet resp"
  wallet_by_name_hotkey :: "string \<Rightarrow> wallet resp"

definition load_wallet :: "provider \<Rightarrow> string \<Rightarrow> wallet resp" where
  "load_wallet prov n =
     (case wallet_by_name prov n of
        Returns w \<Rightarrow> Returns w
      | Raises \<Rightarrow> wallet_by_name_hotkey prov n)"

text \<open>Lines 150 to 165.\<close>

fun load_wallets :: "provider \<Rightarrow> string list \<Rightarrow> wallet list" where
  "load_wallets prov [] = []"
| "load_wallets prov (n # ns) =
     (case load_wallet prov n of
        Raises \<Rightarrow> load_wallets prov ns
      | Returns w \<Rightarrow>
          (case hotkey_ss58 w of
             Some _ \<Rightarrow> w
           | None \<Rightarrow>
               (case wallet_by_name_hotkey prov n of
                  Returns w' \<Rightarrow> w'
                | Raises \<Rightarrow> w)) # load_wallets prov ns)"

text \<open>Lines 138 to 169 of \<^verbatim>\<open>main\<close>: connect, fetch the cost, wait for the epoch
  start, load the wallets. \<open>NoWallets\<close> is the \<^verbatim>\<open>return\<close> of line 169, after which
  \<^verbatim>\<open>main\<close> does nothing more; \<open>Ready\<close> goes on to the race.\<close>

datatype 'v setup_result = SetupRaised pyerr | NoWallets | Ready 'v "wallet list"

definition main_setup ::
  "provider \<Rightarrow> 'v subtensor \<Rightarrow> ('v setup_result \<times> event list) option" where
  "main_setup prov st =
     (case connect st of
        Raises \<Rightarrow> Some (SetupRaised RemoteError, [Connect])
      | Returns _ \<Rightarrow>
          (case get_subnet_burn_cost st of
             Raises \<Rightarrow> Some (SetupRaised RemoteError, [Connect, CostQuery])
           | Returns burn_cost \<Rightarrow>
               (case (if USE_EPOCH_START
                      then wait_for_next_epoch_start st [Connect, CostQuery]
                      else Some (Inr (), [Connect, CostQuery])) of
                  None \<Rightarrow> None
                | Some (Inl e, tr) \<Rightarrow> Some (SetupRaised e, tr)
                | Some (Inr _, tr) \<Rightarrow>
                    (let wallets = load_wallets prov COLDKEY_NAMES
                     in if wallets = [] then Some (NoWallets, tr)
                        else Some (Ready burn_cost wallets, tr)))))"

text \<open>The calls of the race itself: balance queries and submissions.\<close>

definition race_calls :: "event list \<Rightarrow> event list" where
  "race_calls tr =
     filter (\<lambda>e. case e of BalanceQuery _ \<Rightarrow> True | Submit _ \<Rightarrow> True | _ \<Rightarrow> False) tr"

section \<open>Waiting for the tasks of the pool\<close>

text \<open>A future is the index of its task. \<open>done_at k f\<close> says that future \<open>f\<close> has
  finished when the orchestrator looks for the \<open>k\<close>-th time, and \<open>result f\<close> is
  what \<^verbatim>\<open>f.result()\<close> gives then.\<close>

record pool =
  done_at :: "nat \<Rightarrow> nat \<Rightarrow> bool"
  result :: "nat \<Rightarrow> bool resp"

text \<open>main.py, lines 230 and 231: \<^verbatim>\<open>as_completed\<close> yields each future once it has
  finished, so the loop ends at the first look at which all of them have.\<close>

partial_function (option) drain_futures :: "pool \<Rightarrow> nat \<Rightarrow> nat list \<Rightarrow> nat option" where
  "drain_futures pl k futures =
     (if list_all (done_at pl k) futures then Some k
      else drain_futures pl (Suc k) futures)"

text \<open>monkey.py, lines 185 to 191: the \<^verbatim>\<open>for fut in done\<close> loop.\<close>

fun scan_done :: "pool \<Rightarrow> nat list \<Rightarrow> bool \<Rightarrow> bool" where
  "scan_done pl [] succeeded = succeeded"
| "scan_done pl (fut # rest) succeeded =
     (case result pl fut of
        Returns r \<Rightarrow> if r then True else scan_done pl rest succeeded
      | Raises \<Rightarrow> scan_done pl rest succeeded)"

text \<open>monkey.py, lines 183 to 192: the loop around \<^verbatim>\<open>wait(futures, timeout=1,
  return_when=FIRST_COMPLETED)\<close>. It returns the flag \<^verbatim>\<open>success\<close>, the futures still in
  \<^verbatim>\<open>futures\<close> when it ends and the number of looks; line 195 shuts the executor
  down with \<^verbatim>\<open>wait=False\<close>, so nothing waits for those futures afterwards.\<close>

partial_function (option) wait_loop ::
  "pool \<Rightarrow> nat \<Rightarrow> nat list \<Rightarrow> bool \<Rightarrow> (bool \<times> nat list \<times> nat) option" where
  "wait_loop pl k futures succeeded =
     (if futures \<noteq> [] \<and> \<not> succeeded
      then wait_loop pl (Suc k)
             (filter (\<lambda>f. \<not> done_at pl k f) futures)
             (scan_done pl (filter (done_at pl k) futures) succeeded)
      else Some (succeeded, futures, k))"

section \<open>monkey.py: the wall-clock window\<close>

text \<open>A \<^verbatim>\<open>datetime\<close> is its number of microseconds since 1970-01-01 00:00:00 UTC
  and a \<^verbatim>\<open>timedelta\<close> a number of microseconds.\<close>

definition CYCLE_BLOCKS :: int where "CYCLE_BLOCKS = 360"
definition BLOCK_TIME_S :: int where "BLOCK_TIME_S = 12"

definition cycle_seconds :: int where
  "cycle_seconds = CYCLE_BLOCKS * BLOCK_TIME_S"

definition timedelta_seconds :: "int \<Rightarrow> int" where
  "timedelta_seconds s = s * 1000000"

text \<open>The range of \<^verbatim>\<open>datetime\<close>: from 0001-01-01 00:00:00 to 9999-12-31
  23:59:59.999999. Adding a \<^verbatim>\<open>timedelta\<close> that leaves it raises
  \<^verbatim>\<open>OverflowError\<close>.\<close>

definition datetime_min :: int where
  "datetime_min = - 62135596800000000"

definition datetime_max :: int where
  "datetime_max = 253402300799999999"

definition datetime_add :: "int \<Rightarrow> int \<Rightarrow> pyerr + int" where
  "datetime_add d td =
     (if d + td < datetime_min \<or> datetime_max < d + td then Inl OverflowError
      else Inr (d + td))"

text \<open>Lines 146 to 149: \<^verbatim>\<open>while target_dt <= now_dt: target_dt += timedelta(...)\<close>.\<close>

function advance_target :: "int \<Rightarrow> int \<Rightarrow> pyerr + int" where
  "advance_target target_dt now_dt =
     (if target_dt \<le> now_dt
      then (case datetime_add target_dt (timedelta_seconds cycle_seconds) of
              Inl e \<Rightarrow> Inl e
            | Inr next_dt \<Rightarrow> advance_target next_dt now_dt)
      else Inr target_dt)"
  by pat_completeness auto
termination
  by (relation "measure (\<lambda>(t, n). nat (n - t + 1))")
     (auto simp: datetime_add_def timedelta_seconds_def cycle_seconds_def
                 CYCLE_BLOCKS_def BLOCK_TIME_S_def split: if_splits)

declare advance_target.simps [simp del]

section \<open>Concrete clients, wallets and pools\<close>

text \<open>A value as \<^verbatim>\<open>_compare_balances\<close> sees it: the amount in rao it stands for,
  whether it supports \<^verbatim>\<open><\<close>, and what the two conversions to float give.\<close>

record sample =
  amount :: int
  has_lt :: bool
  tao_view :: "pyfloat option"
  str_view :: "pyfloat option"

definition sample_ops :: "sample pyops" where
  "sample_ops =
     \<lparr>typed_lt = (\<lambda>a b. if has_lt a \<and> has_lt b then Some (amount a < amount b) else None),
      tao_float = tao_view,
      str_float = str_view\<rparr>"

text \<open>A balance of the SDK: it compares by its amount in rao, has the attribute
  \<^verbatim>\<open>tao\<close> and prints with the unit sign first. The amounts used below are 0.5, 2 and
  4 tao, which a float holds exactly.\<close>

definition typed_sample :: "int \<Rightarrow> rat \<Rightarrow> sample" where
  "typed_sample rao tao =
     \<lparr>amount = rao, has_lt = True, tao_view = Some (Finite tao), str_view = None\<rparr>"

text \<open>A value that keeps the attribute \<^verbatim>\<open>tao\<close> but whose \<^verbatim>\<open><\<close> raises; one that
  only prints as a number followed by a unit; and one that does none of the three.\<close>

definition untyped_sample :: "int \<Rightarrow> rat \<Rightarrow> sample" where
  "untyped_sample rao tao =
     \<lparr>amount = rao, has_lt = False, tao_view = Some (Finite tao), str_view = None\<rparr>"

definition printed_sample :: "int \<Rightarrow> rat \<Rightarrow> sample" where
  "printed_sample rao tao =
     \<lparr>amount = rao, has_lt = False, tao_view = None, str_view = Some (Finite tao)\<rparr>"

definition opaque_sample :: "int \<Rightarrow> sample" where
  "opaque_sample rao =
     \<lparr>amount = rao, has_lt = False, tao_view = None, str_view = None\<rparr>"

text \<open>Values that support neither the comparison nor any conversion.\<close>

definition opaque_ops :: "string pyops" where
  "opaque_ops =
     \<lparr>typed_lt = (\<lambda>a b. None), tao_float = (\<lambda>a. None), str_float = (\<lambda>a. None)\<rparr>"

text \<open>A node at block 720 of a subnet of tempo 360, whose direct uid query raises.
  The cost is 2 tao; the address \<^verbatim>\<open>5Cpoor\<close> holds 0.5 tao and every other one 4.\<close>

definition ex_st :: "sample subtensor" where
  "ex_st =
     \<lparr>connect = Returns (),
      get_subnet_burn_cost = Returns (typed_sample 2000000000 2),
      get_current_block = (\<lambda>k. Returns (Some 720)),
      metagraph_tempo = Returns 360,
      get_balance =
        (\<lambda>a. if a = ''5Cpoor'' then Returns (Some (typed_sample 500000000 (1 / 2)))
             else Returns (Some (typed_sample 4000000000 4))),
      burned_register = (\<lambda>n. Inr True),
      get_uid_for_hotkey_on_subnet = (\<lambda>t h. Raises),
      is_hotkey_registered_on_subnet = (\<lambda>t h. Returns True)\<rparr>"

text \<open>The same node, answering the direct uid query with uid 0.\<close>

definition zero_st :: "sample subtensor" where
  "zero_st = ex_st\<lparr>get_uid_for_hotkey_on_subnet := (\<lambda>t h. Returns (Some 0))\<rparr>"

text \<open>A node that accepts the connection and then fails every query.\<close>

definition down_st :: "int subtensor" where
  "down_st =
     \<lparr>connect = Returns (),
      get_subnet_burn_cost = Raises,
      get_current_block = (\<lambda>k. Raises),
      metagraph_tempo = Raises,
      get_balance = (\<lambda>a. Raises),
      burned_register = (\<lambda>n. Inl ''unreachable''),
      get_uid_for_hotkey_on_subnet = (\<lambda>t h. Raises),
      is_hotkey_registered_on_subnet = (\<lambda>t h. Raises)\<rparr>"

definition no_keys :: provider where
  "no_keys = \<lparr>wallet_by_name = (\<lambda>n. Raises), wallet_by_name_hotkey = (\<lambda>n. Raises)\<rparr>"

definition poor_wallet :: wallet where
  "poor_wallet =
     \<lparr>name = ''cold_1'', hotkey_ss58 = Some ''5Hpoor'', coldkeypub_ss58 = Some ''5Cpoor''\<rparr>"

definition rich_wallet :: wallet where
  "rich_wallet =
     \<lparr>name = ''cold_2'', hotkey_ss58 = Some ''5Hrich'', coldkeypub_ss58 = Some ''5Crich''\<rparr>"

definition go_obs :: obs where
  "go_obs = \<lparr>dispatch_past_end = False, signal_is_set = False, clock_past_end = False\<rparr>"

text \<open>Future 0 has finished with \<^verbatim>\<open>True\<close> at every look, future 1 at none.\<close>

definition race_pool :: pool where
  "race_pool = \<lparr>done_at = (\<lambda>k f. f = 0), result = (\<lambda>f. Returns True)\<rparr>"

text \<open>Future \<open>f\<close> has finished from look \<open>f + 1\<close> on, and none succeeds.\<close>

definition slow_pool :: pool where
  "slow_pool =
     \<lparr>done_at = (\<lambda>k f. f < k), result = (\<lambda>f. if f = 0 then Raises else Returns False)\<rparr>"

section \<open>The block-height window\<close>

lemma blocks_until_range:
  "0 < p \<Longrightarrow> 0 \<le> blocks_until h p \<and> blocks_until h p < p"
  by (simp add: blocks_until_def)

lemma target_block_mod:
  "target_block h p mod p = 0"
proof -
  have "(h + (p - h mod p) mod p) mod p = (h mod p + (p - h mod p) mod p) mod p"
    by (simp add: mod_add_left_eq)
  also have "\<dots> = (h mod p + (p - h mod p)) mod p"
    by (simp add: mod_add_right_eq)
  also have "\<dots> = 0"
    by simp
  finally show ?thesis
    by (simp add: target_block_def blocks_until_def)
qed

lemma wait_epoch_boundary:
  assumes "current_block st tr = Some h" and "metagraph_tempo st = Returns p"
    and "p \<noteq> 0" and "h mod p = 0"
  shows "wait_for_next_epoch_start st tr = Some (Inr (), tr @ [HeightQuery, MetagraphQuery])"
  using assms by (simp add: wait_for_next_epoch_start_def Let_def blocks_until_def)

text \<open>
  C1. For every height \<open>h\<close> and every positive period \<open>p\<close> the target block computed
  by the scheduler is at least \<open>h\<close>, is a multiple of \<open>p\<close> and is less than \<open>p\<close> blocks
  ahead. When \<open>h\<close> is itself a multiple of \<open>p\<close> the target is \<open>h\<close>, and a scheduler
  that reads height \<open>h\<close> and tempo \<open>p\<close> returns at once, after its two queries and
  without polling or sleeping.
\<close>

theorem window_target_block:
  assumes "0 < p"
  shows "h \<le> target_block h p \<and> target_block h p mod p = 0 \<and> target_block h p - h < p \<and>
         (h mod p = 0 \<longrightarrow>
            target_block h p = h \<and>
            (current_block st tr = Some h \<and> metagraph_tempo st = Returns p \<longrightarrow>
               wait_for_next_epoch_start st tr
                 = Some (Inr (), tr @ [HeightQuery, MetagraphQuery])))"
proof -
  from assms have r: "0 \<le> blocks_until h p \<and> blocks_until h p < p"
    by (rule blocks_until_range)
  have a: "h \<le> target_block h p" using r by (simp add: target_block_def)
  have b: "target_block h p mod p = 0" by (rule target_block_mod)
  have c: "target_block h p - h < p" using r by (simp add: target_block_def)
  have d: "target_block h p = h" if "h mod p = 0"
    using that assms by (simp add: target_block_def blocks_until_def)
  have e: "wait_for_next_epoch_start st tr = Some (Inr (), tr @ [HeightQuery, MetagraphQuery])"
    if "h mod p = 0" and "current_block st tr = Some h" and "metagraph_tempo st = Returns p"
    using wait_epoch_boundary[OF that(2) that(3) _ that(1)] assms by simp
  show ?thesis
  proof (intro conjI impI)
    show "h \<le> target_block h p" by (rule a)
    show "target_block h p mod p = 0" by (rule b)
    show "target_block h p - h < p" by (rule c)
    show "target_block h p = h" if "h mod p = 0" using that by (rule d)
    show "wait_for_next_epoch_start st tr = Some (Inr (), tr @ [HeightQuery, MetagraphQuery])"
      if "h mod p = 0" and "current_block st tr = Some h \<and> metagraph_tempo st = Returns p"
      using e that by blast
  qed
qed

theorem window_target_block_witness:
  "(0::int) < 360 \<and> 720 mod 360 = (0::int) \<and> current_block ex_st [] = Some 720 \<and>
   metagraph_tempo ex_st = Returns 360 \<and> target_block 720 360 = 720 \<and>
   wait_for_next_epoch_start ex_st [] = Some (Inr (), [HeightQuery, MetagraphQuery])"
  using window_target_block [of 360 720 ex_st "[]"]
  by (simp add: ex_st_def current_block_def height_queries_def)

section \<open>The wall-clock window\<close>

lemma cycle_positive: "0 < timedelta_seconds cycle_seconds"
  by (simp add: timedelta_seconds_def cycle_seconds_def CYCLE_BLOCKS_def BLOCK_TIME_S_def)

lemma datetime_add_Inr:
  "datetime_add d td = Inr x \<Longrightarrow> x = d + td \<and> datetime_min \<le> x \<and> x \<le> datetime_max"
  by (auto simp: datetime_add_def split: if_splits)

lemma datetime_add_Inl:
  "datetime_add d td = Inl e \<Longrightarrow> e = OverflowError \<and> (d + td < datetime_min \<or> datetime_max < d + td)"
  by (auto simp: datetime_add_def split: if_splits)

lemma advance_target_returns:
  "advance_target t n = Inr r \<Longrightarrow>
   \<exists>k::nat. r = t + int k * timedelta_seconds cycle_seconds \<and>
      (\<forall>j<k. t + int j * timedelta_seconds cycle_seconds \<le> n) \<and> n < r \<and>
      (0 < k \<longrightarrow> r \<le> datetime_max)"
proof (induction t n rule: advance_target.induct)
  case (1 t n)
  show ?case
  proof (cases "t \<le> n")
    case False
    with 1(2) have "r = t" by (simp add: advance_target.simps[of t n])
    with False have "r = t + int 0 * timedelta_seconds cycle_seconds \<and>
      (\<forall>j<(0::nat). t + int j * timedelta_seconds cycle_seconds \<le> n) \<and> n < r \<and>
      (0 < (0::nat) \<longrightarrow> r \<le> datetime_max)" by simp
    then show ?thesis by blast
  next
    case True
    with 1(2) obtain x where x: "datetime_add t (timedelta_seconds cycle_seconds) = Inr x"
      and a: "advance_target x n = Inr r"
      by (auto simp: advance_target.simps[of t n] split: sum.splits)
    from datetime_add_Inr[OF x] have xe: "x = t + timedelta_seconds cycle_seconds"
      and xm: "x \<le> datetime_max" by auto
    from 1(1)[OF True x a] obtain k where
      k: "r = x + int k * timedelta_seconds cycle_seconds"
      and m: "\<forall>j<k. x + int j * timedelta_seconds cycle_seconds \<le> n"
      and g: "n < r" and b: "0 < k \<longrightarrow> r \<le> datetime_max"
      by blast
    have r1: "r = t + int (Suc k) * timedelta_seconds cycle_seconds"
      using k xe by (simp add: algebra_simps)
    have r2: "\<forall>j<Suc k. t + int j * timedelta_seconds cycle_seconds \<le> n"
    proof (intro allI impI)
      fix j assume "j < Suc k"
      show "t + int j * timedelta_seconds cycle_seconds \<le> n"
      proof (cases j)
        case 0
        then show ?thesis using True by simp
      next
        case (Suc i)
        then have "i < k" using \<open>j < Suc k\<close> by simp
        with m have "x + int i * timedelta_seconds cycle_seconds \<le> n" by blast
        then show ?thesis using Suc xe by (simp add: algebra_simps)
      qed
    qed
    have r3: "r \<le> datetime_max"
    proof (cases "0 < k")
      case True then show ?thesis using b by simp
    next
      case False then show ?thesis using k xm by simp
    qed
    from r1 r2 g r3 show ?thesis by blast
  qed
qed

lemma advance_target_raises:
  "advance_target t n = Inl e \<Longrightarrow> datetime_min \<le> t \<Longrightarrow>
   e = OverflowError \<and>
   (\<exists>k::nat. (\<forall>j\<le>k. t + int j * timedelta_seconds cycle_seconds \<le> n) \<and>
       datetime_max < t + int (Suc k) * timedelta_seconds cycle_seconds)"
proof (induction t n rule: advance_target.induct)
  case (1 t n)
  from 1(2) have tn: "t \<le> n"
    by (auto simp: advance_target.simps[of t n] split: if_splits)
  show ?case
  proof (cases "datetime_add t (timedelta_seconds cycle_seconds)")
    case (Inl e')
    with 1(2) tn have "e = e'" by (simp add: advance_target.simps[of t n])
    moreover from datetime_add_Inl[OF Inl] 1(3) cycle_positive
    have "e' = OverflowError" "datetime_max < t + timedelta_seconds cycle_seconds" by auto
    ultimately have "e = OverflowError \<and>
      (\<forall>j\<le>(0::nat). t + int j * timedelta_seconds cycle_seconds \<le> n) \<and>
       datetime_max < t + int (Suc 0) * timedelta_seconds cycle_seconds"
      using tn by simp
    then show ?thesis by blast
  next
    case (Inr x)
    with 1(2) tn have a: "advance_target x n = Inl e" by (simp add: advance_target.simps[of t n])
    from datetime_add_Inr[OF Inr] have xe: "x = t + timedelta_seconds cycle_seconds"
      and xm: "datetime_min \<le> x" by auto
    from 1(1)[OF tn Inr a xm] obtain k where e: "e = OverflowError"
      and m: "\<forall>j\<le>k. x + int j * timedelta_seconds cycle_seconds \<le> n"
      and o: "datetime_max < x + int (Suc k) * timedelta_seconds cycle_seconds" by blast
    have m': "\<forall>j\<le>Suc k. t + int j * timedelta_seconds cycle_seconds \<le> n"
    proof (intro allI impI)
      fix j assume "j \<le> Suc k"
      show "t + int j * timedelta_seconds cycle_seconds \<le> n"
      proof (cases j)
        case 0
        then show ?thesis using tn by simp
      next
        case (Suc i)
        then have "i \<le> k" using \<open>j \<le> Suc k\<close> by simp
        with m have "x + int i * timedelta_seconds cycle_seconds \<le> n" by blast
        then show ?thesis using Suc xe by (simp add: algebra_simps)
      qed
    qed
    have o': "datetime_max < t + int (Suc (Suc k)) * timedelta_seconds cycle_seconds"
      using o xe by (simp add: algebra_simps)
    from e m' o' show ?thesis by blast
  qed
qed

lemma cycles_mono:
  "(i::nat) \<le> j \<Longrightarrow> t + int i * timedelta_seconds cycle_seconds
                      \<le> t + int j * timedelta_seconds cycle_seconds"
  using cycle_positive by (simp add: mult_right_mono)

text \<open>
  C7, as the code has it. For an anchor that is a \<^verbatim>\<open>datetime\<close>: when the loop
  returns, the target is the anchor plus a whole number \<open>k \<ge> 0\<close> of cycle lengths, is
  strictly later than the current time, lies in the range of \<^verbatim>\<open>datetime\<close>, and no
  anchor plus \<open>j\<close> cycle lengths that is strictly later than the current time is
  earlier than it. When it raises, the exception is \<^verbatim>\<open>OverflowError\<close> and every
  anchor plus \<open>j\<close> cycle lengths strictly later than the current time is past
  \<^verbatim>\<open>datetime.max\<close>. It returns whenever some such value is in range.
\<close>

theorem advance_target_least:
  assumes "datetime_min \<le> last_dt" and "last_dt \<le> datetime_max"
  shows "(advance_target last_dt now_dt = Inr t \<longrightarrow>
            (\<exists>k::nat. t = last_dt + int k * timedelta_seconds cycle_seconds) \<and>
            now_dt < t \<and> t \<le> datetime_max \<and>
            (now_dt < last_dt + int j * timedelta_seconds cycle_seconds \<longrightarrow>
               t \<le> last_dt + int j * timedelta_seconds cycle_seconds)) \<and>
         (advance_target last_dt now_dt = Inl e \<longrightarrow>
            e = OverflowError \<and>
            (now_dt < last_dt + int j * timedelta_seconds cycle_seconds \<longrightarrow>
               datetime_max < last_dt + int j * timedelta_seconds cycle_seconds)) \<and>
         (now_dt < last_dt + int j * timedelta_seconds cycle_seconds \<and>
          last_dt + int j * timedelta_seconds cycle_seconds \<le> datetime_max \<longrightarrow>
            (\<exists>r. advance_target last_dt now_dt = Inr r))"
proof -
  have A: "(\<exists>k::nat. t = last_dt + int k * timedelta_seconds cycle_seconds) \<and>
            now_dt < t \<and> t \<le> datetime_max \<and>
            (now_dt < last_dt + int j * timedelta_seconds cycle_seconds \<longrightarrow>
               t \<le> last_dt + int j * timedelta_seconds cycle_seconds)"
    if r: "advance_target last_dt now_dt = Inr t"
  proof -
    from advance_target_returns[OF r] obtain k :: nat where
      k: "t = last_dt + int k * timedelta_seconds cycle_seconds"
      and m: "\<forall>i<k. last_dt + int i * timedelta_seconds cycle_seconds \<le> now_dt"
      and g: "now_dt < t" and b: "0 < k \<longrightarrow> t \<le> datetime_max" by blast
    have le: "t \<le> datetime_max"
    proof (cases "0 < k")
      case True then show ?thesis using b by simp
    next
      case False then show ?thesis using k assms(2) by simp
    qed
    have mn: "t \<le> last_dt + int j * timedelta_seconds cycle_seconds"
      if "now_dt < last_dt + int j * timedelta_seconds cycle_seconds"
    proof -
      have "\<not> j < k" using m that by fastforce
      then have "k \<le> j" by simp
      from cycles_mono[OF this, of last_dt] k show ?thesis by simp
    qed
    from k g le mn show ?thesis by blast
  qed
  have B: "e = OverflowError \<and>
            (now_dt < last_dt + int j * timedelta_seconds cycle_seconds \<longrightarrow>
               datetime_max < last_dt + int j * timedelta_seconds cycle_seconds)"
    if l: "advance_target last_dt now_dt = Inl e" for e j
  proof -
    from advance_target_raises[OF l assms(1)] obtain k :: nat where e: "e = OverflowError"
      and m: "\<forall>i\<le>k. last_dt + int i * timedelta_seconds cycle_seconds \<le> now_dt"
      and o: "datetime_max < last_dt + int (Suc k) * timedelta_seconds cycle_seconds" by blast
    have "datetime_max < last_dt + int j * timedelta_seconds cycle_seconds"
      if "now_dt < last_dt + int j * timedelta_seconds cycle_seconds"
    proof -
      have "\<not> j \<le> k" using m that by fastforce
      then have "Suc k \<le> j" by simp
      from cycles_mono[OF this, of last_dt] o show ?thesis by linarith
    qed
    with e show ?thesis by blast
  qed
  have C: "\<exists>r. advance_target last_dt now_dt = Inr r"
    if "now_dt < last_dt + int j * timedelta_seconds cycle_seconds"
      and "last_dt + int j * timedelta_seconds cycle_seconds \<le> datetime_max"
  proof (cases "advance_target last_dt now_dt")
    case (Inl e')
    from B[OF Inl, of j] that show ?thesis by linarith
  next
    case (Inr r) then show ?thesis by blast
  qed
  from A B C show ?thesis by blast
qed

theorem advance_target_least_witness:
  "datetime_min \<le> 0 \<and> 0 \<le> datetime_max \<and>
   advance_target 0 5000000000 = Inr 8640000000 \<and>
   5000000000 < 0 + int 2 * timedelta_seconds cycle_seconds \<and>
   0 + int 2 * timedelta_seconds cycle_seconds \<le> datetime_max \<and>
   (8640000000::int) \<le> 0 + int 2 * timedelta_seconds cycle_seconds \<and>
   datetime_min \<le> 253402297200000000 \<and> 253402297200000000 \<le> datetime_max \<and>
   advance_target 253402297200000000 253402299000000000 = Inl OverflowError \<and>
   253402299000000000 < 253402297200000000 + int 1 * timedelta_seconds cycle_seconds \<and>
   datetime_max < 253402297200000000 + int 1 * timedelta_seconds cycle_seconds"
proof -
  have v1: "datetime_min \<le> 0" "0 \<le> datetime_max"
    by (simp_all add: datetime_min_def datetime_max_def)
  have v2: "datetime_min \<le> 253402297200000000" "253402297200000000 \<le> datetime_max"
    by (simp_all add: datetime_min_def datetime_max_def)
  have r: "advance_target 0 5000000000 = Inr 8640000000"
    by (simp add: advance_target.simps datetime_add_def datetime_min_def datetime_max_def
          timedelta_seconds_def cycle_seconds_def CYCLE_BLOCKS_def BLOCK_TIME_S_def)
  have l: "advance_target 253402297200000000 253402299000000000 = Inl OverflowError"
    by (simp add: advance_target.simps datetime_add_def datetime_min_def datetime_max_def
          timedelta_seconds_def cycle_seconds_def CYCLE_BLOCKS_def BLOCK_TIME_S_def)
  have c1: "5000000000 < 0 + int 2 * timedelta_seconds cycle_seconds"
    "0 + int 2 * timedelta_seconds cycle_seconds \<le> datetime_max"
    by (simp_all add: datetime_max_def timedelta_seconds_def cycle_seconds_def
          CYCLE_BLOCKS_def BLOCK_TIME_S_def)
  have c2: "253402299000000000 < 253402297200000000 + int 1 * timedelta_seconds cycle_seconds"
    by (simp add: timedelta_seconds_def cycle_seconds_def CYCLE_BLOCKS_def BLOCK_TIME_S_def)
  from advance_target_least [OF v1, of 5000000000 8640000000 2 OverflowError] r c1
  have a: "(8640000000::int) \<le> 0 + int 2 * timedelta_seconds cycle_seconds" by blast
  from advance_target_least [OF v2, of 253402299000000000 0 1 OverflowError] l c2
  have b: "datetime_max < 253402297200000000 + int 1 * timedelta_seconds cycle_seconds"
    by blast
  from v1 v2 r l c1 c2 a b show ?thesis by blast
qed

text \<open>C7 as stated fails: with the anchor at 9999-12-31 23:00:00 and the clock at
  23:30:00 of the same day, both of them values of \<^verbatim>\<open>datetime\<close>, the first addition
  of a cycle leaves the range and the loop raises instead of giving a target.\<close>

theorem advance_target_overflows:
  "datetime_min \<le> 253402297200000000 \<and> 253402299000000000 \<le> datetime_max \<and>
   (253402297200000000::int) \<le> 253402299000000000 \<and>
   advance_target 253402297200000000 253402299000000000 = Inl OverflowError"
  by (simp add: advance_target.simps datetime_add_def datetime_min_def datetime_max_def
        timedelta_seconds_def cycle_seconds_def CYCLE_BLOCKS_def BLOCK_TIME_S_def)

section \<open>The scheduler and failing queries\<close>

lemma race_calls_append: "race_calls (xs @ ys) = race_calls xs @ race_calls ys"
  by (simp add: race_calls_def)

lemma coarse_wait_extends:
  assumes "coarse_wait st target tr = Some tr'"
  shows "\<exists>rest. tr' = tr @ rest \<and> race_calls rest = []"
proof (rule coarse_wait.raw_induct
    [where P = "\<lambda>st target tr tr'. \<exists>rest. tr' = tr @ rest \<and> race_calls rest = []"])
  show "coarse_wait st target tr = Some tr'" by (rule assms)
next
  fix cw and st :: "'a subtensor" and target tr tr'
  assume ih: "\<And>st target tr tr'. cw st target tr = Some tr'
                 \<Longrightarrow> \<exists>rest. tr' = tr @ rest \<and> race_calls rest = []"
    and eq: "(case current_block st tr of
                None \<Rightarrow> Some (tr @ [HeightQuery])
              | Some now_block \<Rightarrow>
                  if now_block \<ge> target - 1 then Some (tr @ [HeightQuery])
                  else cw st target (tr @ [HeightQuery, Sleep 2])) = Some tr'"
  show "\<exists>rest. tr' = tr @ rest \<and> race_calls rest = []"
  proof (cases "cw st target (tr @ [HeightQuery, Sleep 2]) = Some tr'")
    case True
    from ih[OF this] obtain rest where
      "tr' = (tr @ [HeightQuery, Sleep 2]) @ rest" "race_calls rest = []" by blast
    then have "tr' = tr @ ([HeightQuery, Sleep 2] @ rest)
                 \<and> race_calls ([HeightQuery, Sleep 2] @ rest) = []"
      by (simp add: race_calls_def)
    then show ?thesis by blast
  next
    case False
    with eq have "tr' = tr @ [HeightQuery]"
      by (auto split: option.splits if_splits)
    then have "tr' = tr @ [HeightQuery] \<and> race_calls [HeightQuery] = []"
      by (simp add: race_calls_def)
    then show ?thesis by blast
  qed
qed

lemma fine_wait_extends:
  assumes "fine_wait st target tr = Some tr'"
  shows "\<exists>rest. tr' = tr @ rest \<and> race_calls rest = []"
proof (rule fine_wait.raw_induct
    [where P = "\<lambda>st target tr tr'. \<exists>rest. tr' = tr @ rest \<and> race_calls rest = []"])
  show "fine_wait st target tr = Some tr'" by (rule assms)
next
  fix fw and st :: "'a subtensor" and target tr tr'
  assume ih: "\<And>st target tr tr'. fw st target tr = Some tr'
                 \<Longrightarrow> \<exists>rest. tr' = tr @ rest \<and> race_calls rest = []"
    and eq: "(case current_block st tr of
                None \<Rightarrow> Some (tr @ [HeightQuery])
              | Some now_block \<Rightarrow>
                  if now_block \<ge> target then Some (tr @ [HeightQuery])
                  else fw st target (tr @ [HeightQuery, Sleep (1 / 100)])) = Some tr'"
  show "\<exists>rest. tr' = tr @ rest \<and> race_calls rest = []"
  proof (cases "fw st target (tr @ [HeightQuery, Sleep (1 / 100)]) = Some tr'")
    case True
    from ih[OF this] obtain rest where
      "tr' = (tr @ [HeightQuery, Sleep (1 / 100)]) @ rest" "race_calls rest = []" by blast
    then have "tr' = tr @ ([HeightQuery, Sleep (1 / 100)] @ rest)
        \<and> race_calls ([HeightQuery, Sleep (1 / 100)] @ rest) = []"
      by (simp add: race_calls_def)
    then show ?thesis by blast
  next
    case False
    with eq have "tr' = tr @ [HeightQuery]"
      by (auto split: option.splits if_splits)
    then have "tr' = tr @ [HeightQuery] \<and> race_calls [HeightQuery] = []"
      by (simp add: race_calls_def)
    then show ?thesis by blast
  qed
qed

lemma wait_epoch_extends:
  assumes "wait_for_next_epoch_start st tr0 = Some (r, tr)"
  shows "\<exists>rest. tr = tr0 @ [HeightQuery, MetagraphQuery] @ rest \<and> race_calls rest = []"
proof (cases "\<exists>b p. metagraph_tempo st = Returns p \<and> current_block st tr0 = Some b
                \<and> p \<noteq> 0 \<and> blocks_until b p \<noteq> 0")
  case False
  with assms have "tr = tr0 @ [HeightQuery, MetagraphQuery]"
    by (auto simp: wait_for_next_epoch_start_def Let_def
             split: resp.splits option.splits if_splits)
  then have "tr = tr0 @ [HeightQuery, MetagraphQuery] @ [] \<and> race_calls [] = []"
    by (simp add: race_calls_def)
  then show ?thesis by blast
next
  case True
  then obtain b p where h: "metagraph_tempo st = Returns p" "current_block st tr0 = Some b"
      "p \<noteq> 0" "blocks_until b p \<noteq> 0" by blast
  with assms obtain tr2 where
    c: "coarse_wait st (target_block b p) (tr0 @ [HeightQuery, MetagraphQuery]) = Some tr2"
    and f: "fine_wait st (target_block b p) tr2 = Some tr"
    by (auto simp: wait_for_next_epoch_start_def Let_def split: option.splits)
  from coarse_wait_extends[OF c] obtain r1 where
    r1: "tr2 = (tr0 @ [HeightQuery, MetagraphQuery]) @ r1" "race_calls r1 = []" by blast
  from fine_wait_extends[OF f] obtain r2 where
    r2: "tr = tr2 @ r2" "race_calls r2 = []" by blast
  have "tr = tr0 @ [HeightQuery, MetagraphQuery] @ (r1 @ r2) \<and> race_calls (r1 @ r2) = []"
    using r1 r2 by (simp add: race_calls_append)
  then show ?thesis by blast
qed

text \<open>What does hold of the scheduler: once the metagraph has been fetched and its
  tempo is not zero, no exception leaves it; without a height it returns at once,
  having slept not at all; and a failed height query ends either polling loop.\<close>

lemma wait_epoch_never_raises:
  assumes "metagraph_tempo st = Returns p" and "p \<noteq> 0"
    and "wait_for_next_epoch_start st tr0 = Some (r, tr)"
  shows "r = Inr ()"
  using assms
  by (auto simp: wait_for_next_epoch_start_def Let_def split: option.splits if_splits)

lemma wait_epoch_no_height:
  assumes "metagraph_tempo st = Returns p" and "current_block st tr0 = None"
  shows "wait_for_next_epoch_start st tr0 = Some (Inr (), tr0 @ [HeightQuery, MetagraphQuery])
         \<and> sleeps (tr0 @ [HeightQuery, MetagraphQuery]) = sleeps tr0"
  using assms by (simp add: wait_for_next_epoch_start_def Let_def sleeps_def)

lemma polling_ends_on_failure:
  assumes "current_block st tr = None"
  shows "coarse_wait st target tr = Some (tr @ [HeightQuery])"
    and "fine_wait st target tr = Some (tr @ [HeightQuery])"
  using assms by (simp_all add: coarse_wait.simps fine_wait.simps)

lemma wait_epoch_metagraph_raises:
  assumes "metagraph_tempo st = Raises"
  shows "wait_for_next_epoch_start st tr0
           = Some (Inl RemoteError, tr0 @ [HeightQuery, MetagraphQuery])"
  using assms by (simp add: wait_for_next_epoch_start_def Let_def)

text \<open>
  C3. The claim is that for every behaviour of the chain client the scheduler raises
  nothing and returns at once when the height cannot be read. Against a node that
  fails every query, the height query is caught and gives \<^verbatim>\<open>None\<close>, but the
  metagraph is fetched at line 109, before the test of line 112 and outside any
  \<^verbatim>\<open>try\<close>: its exception leaves the scheduler.
\<close>

theorem wait_epoch_raises_on_down_node:
  "current_block down_st [] = None \<and>
   wait_for_next_epoch_start down_st [] = Some (Inl RemoteError, [HeightQuery, MetagraphQuery])"
  by (simp add: wait_for_next_epoch_start_def Let_def down_st_def current_block_def)

section \<open>The balance gate\<close>

lemma submit_one_result:
  "submit_one ops st c ob w (sub, tr) =
     (if signal_is_set ob \<or> clock_past_end ob then (None, sub, tr)
      else if balance_gate ops (get_wallet_balance st w) c
      then (Some (snd (try_register st w)), sub @ [(name w, try_register st w)],
            tr @ balance_events w @ [Submit (name w)])
      else (None, sub, tr @ balance_events w))"
  by (simp add: submit_one_def split: prod.splits)

text \<open>
  C2, as the code has it. With no balance (\<^verbatim>\<open>None\<close>) the gate lets the attempt go
  on. With a balance \<open>b\<close> that was fetched: where the typed comparison answers, and
  answers by the amounts, the gate lets the attempt go on exactly when \<open>b \<ge> c\<close>;
  where the typed comparison raises, it lets it go on exactly when
  \<^verbatim>\<open>to_float(b) < to_float(c)\<close> is false, each value being converted by its
  attribute \<^verbatim>\<open>tao\<close>, else by the first token of its string, else counted as 0.0.
  A task that starts before the signal and the deadline submits and appends its record
  exactly when the gate lets it; otherwise it only asks for the balance.
\<close>

theorem balance_gate_allows:
  "balance_gate ops None cn \<and>
   (typed_lt ops bt ct = Some (rao bt < rao ct) \<longrightarrow>
      balance_gate ops (Some bt) ct = ((rao ct :: int) \<le> rao bt)) \<and>
   (typed_lt ops bf cf = None \<longrightarrow>
      balance_gate ops (Some bf) cf = (\<not> float_lt (to_float ops bf) (to_float ops cf))) \<and>
   (tao_float ops va = Some fa \<longrightarrow> to_float ops va = fa) \<and>
   (tao_float ops vb = None \<and> str_float ops vb = Some fb \<longrightarrow> to_float ops vb = fb) \<and>
   (tao_float ops vc = None \<and> str_float ops vc = None \<longrightarrow> to_float ops vc = Finite 0) \<and>
   (\<not> signal_is_set ob \<and> \<not> clock_past_end ob \<longrightarrow>
      submit_one ops st c ob w (sub, tr) =
        (if balance_gate ops (get_wallet_balance st w) c
         then (Some (snd (try_register st w)), sub @ [(name w, try_register st w)],
               tr @ balance_events w @ [Submit (name w)])
         else (None, sub, tr @ balance_events w)))"
proof (intro conjI impI)
  show "balance_gate ops None cn"
    by (simp add: balance_gate_def)
  show "balance_gate ops (Some bt) ct = (rao ct \<le> rao bt)"
    if "typed_lt ops bt ct = Some (rao bt < rao ct)"
    using that by (auto simp: balance_gate_def compare_balances_def)
  show "balance_gate ops (Some bf) cf = (\<not> float_lt (to_float ops bf) (to_float ops cf))"
    if "typed_lt ops bf cf = None"
    using that by (simp add: balance_gate_def compare_balances_def)
  show "to_float ops va = fa" if "tao_float ops va = Some fa"
    using that by (simp add: to_float_def)
  show "to_float ops vb = fb" if "tao_float ops vb = None \<and> str_float ops vb = Some fb"
    using that by (simp add: to_float_def)
  show "to_float ops vc = Finite 0" if "tao_float ops vc = None \<and> str_float ops vc = None"
    using that by (simp add: to_float_def)
  show "submit_one ops st c ob w (sub, tr) =
        (if balance_gate ops (get_wallet_balance st w) c
         then (Some (snd (try_register st w)), sub @ [(name w, try_register st w)],
               tr @ balance_events w @ [Submit (name w)])
         else (None, sub, tr @ balance_events w))"
    if "\<not> signal_is_set ob \<and> \<not> clock_past_end ob"
    using that by (simp add: submit_one_result)
qed

theorem balance_gate_allows_witness:
  "typed_lt sample_ops (typed_sample 500000000 (1 / 2)) (typed_sample 2000000000 2)
     = Some (amount (typed_sample 500000000 (1 / 2)) < amount (typed_sample 2000000000 2)) \<and>
   \<not> balance_gate sample_ops (Some (typed_sample 500000000 (1 / 2))) (typed_sample 2000000000 2) \<and>
   typed_lt sample_ops (untyped_sample 500000000 (1 / 2)) (printed_sample 2000000000 2) = None \<and>
   tao_float sample_ops (untyped_sample 500000000 (1 / 2)) = Some (Finite (1 / 2)) \<and>
   tao_float sample_ops (printed_sample 2000000000 2) = None \<and>
   str_float sample_ops (printed_sample 2000000000 2) = Some (Finite 2) \<and>
   \<not> balance_gate sample_ops (Some (untyped_sample 500000000 (1 / 2))) (printed_sample 2000000000 2) \<and>
   tao_float sample_ops (opaque_sample 7) = None \<and> str_float sample_ops (opaque_sample 7) = None \<and>
   to_float sample_ops (opaque_sample 7) = Finite 0 \<and>
   \<not> signal_is_set go_obs \<and> \<not> clock_past_end go_obs \<and>
   submit_one sample_ops ex_st (typed_sample 2000000000 2) go_obs poor_wallet ([], [])
     = (None, [], [BalanceQuery ''5Cpoor'']) \<and>
   submit_one sample_ops ex_st (typed_sample 2000000000 2) go_obs rich_wallet ([], [])
     = (Some (Res True), [(''cold_2'', True, Res True)], [BalanceQuery ''5Crich'', Submit ''cold_2''])"
proof -
  let ?p = "typed_sample 500000000 (1 / 2)" and ?c = "typed_sample 2000000000 2"
  let ?u = "untyped_sample 500000000 (1 / 2)" and ?d = "printed_sample 2000000000 2"
  let ?o = "opaque_sample 7"
  have h1: "typed_lt sample_ops ?p ?c = Some (amount ?p < amount ?c)"
    by (simp add: sample_ops_def typed_sample_def)
  have h2: "typed_lt sample_ops ?u ?d = None"
    by (simp add: sample_ops_def untyped_sample_def)
  have h3: "tao_float sample_ops ?u = Some (Finite (1 / 2))"
    by (simp add: sample_ops_def untyped_sample_def)
  have h4: "tao_float sample_ops ?d = None \<and> str_float sample_ops ?d = Some (Finite 2)"
    by (simp add: sample_ops_def printed_sample_def)
  have h5: "tao_float sample_ops ?o = None \<and> str_float sample_ops ?o = None"
    by (simp add: sample_ops_def opaque_sample_def)
  have h6: "\<not> signal_is_set go_obs \<and> \<not> clock_past_end go_obs"
    by (simp add: go_obs_def)
  note t = balance_gate_allows
    [where ops = sample_ops and rao = amount and bt = ?p and ct = ?c and bf = ?u and cf = ?d
       and va = ?u and fa = "Finite (1 / 2)" and vb = ?d and fb = "Finite 2"
       and vc = ?o and ob = go_obs and st = ex_st and c = ?c and sub = "[]" and tr = "[]"]
  from t [where w = poor_wallet] h1 have g1: "balance_gate sample_ops (Some ?p) ?c = (amount ?c \<le> amount ?p)"
    by blast
  then have g1': "\<not> balance_gate sample_ops (Some ?p) ?c"
    by (simp add: typed_sample_def)
  from t [where w = poor_wallet] h3 h4 have f: "to_float sample_ops ?u = Finite (1 / 2)"
    "to_float sample_ops ?d = Finite 2" by blast+
  from t [where w = poor_wallet] h2
  have "balance_gate sample_ops (Some ?u) ?d = (\<not> float_lt (to_float sample_ops ?u) (to_float sample_ops ?d))"
    by blast
  with f have g2: "\<not> balance_gate sample_ops (Some ?u) ?d" by simp
  from t [where w = poor_wallet] h5 have z: "to_float sample_ops ?o = Finite 0" by blast
  have bp: "get_wallet_balance ex_st poor_wallet = Some ?p"
    by (simp add: get_wallet_balance_def ex_st_def poor_wallet_def)
  have br: "get_wallet_balance ex_st rich_wallet = Some (typed_sample 4000000000 4)"
    by (simp add: get_wallet_balance_def ex_st_def rich_wallet_def)
  have gr: "balance_gate sample_ops (Some (typed_sample 4000000000 4)) ?c"
    by (simp add: balance_gate_def compare_balances_def sample_ops_def typed_sample_def)
  from t [where w = poor_wallet] h6 bp g1'
  have s1: "submit_one sample_ops ex_st ?c go_obs poor_wallet ([], [])
              = (None, [], [BalanceQuery ''5Cpoor''])"
    by (simp add: balance_events_def poor_wallet_def)
  from t [where w = rich_wallet] h6 br gr
  have s2: "submit_one sample_ops ex_st ?c go_obs rich_wallet ([], [])
     = (Some (Res True), [(''cold_2'', True, Res True)], [BalanceQuery ''5Crich'', Submit ''cold_2''])"
    by (simp add: balance_events_def rich_wallet_def try_register_def ex_st_def)
  from h1 g1' h2 h3 h4 g2 h5 z h6 s1 s2 show ?thesis by blast
qed

text \<open>C2 as stated fails: a balance of 0.5 tao and a cost of 2 tao, held by values
  whose \<^verbatim>\<open><\<close> raises and which convert to no float, both count as 0.0, and the
  gate lets the attempt go on although the balance is below the cost.\<close>

theorem gate_open_below_cost:
  "amount (opaque_sample 500000000) < amount (opaque_sample 2000000000) \<and>
   typed_lt sample_ops (opaque_sample 500000000) (opaque_sample 2000000000) = None \<and>
   balance_gate sample_ops (Some (opaque_sample 500000000)) (opaque_sample 2000000000)"
  by (simp add: balance_gate_def compare_balances_def to_float_def sample_ops_def
        opaque_sample_def)

text \<open>
  C9. When the typed comparison of \<open>a\<close> and \<open>b\<close> raises and neither value converts to
  a float, either by its \<^verbatim>\<open>tao\<close> attribute or by the first token of its string, both
  count as 0.0, the comparison is false, and the gate lets the attempt go on.
\<close>

theorem compare_balances_both_unreadable:
  assumes "typed_lt ops a b = None"
    and "tao_float ops a = None" and "str_float ops a = None"
    and "tao_float ops b = None" and "str_float ops b = None"
  shows "to_float ops a = Finite 0 \<and> to_float ops b = Finite 0 \<and>
         \<not> compare_balances ops a b \<and> balance_gate ops (Some a) b"
  using assms by (simp add: to_float_def compare_balances_def balance_gate_def)

theorem compare_balances_both_unreadable_witness:
  "typed_lt opaque_ops ''n/a'' ''?'' = None \<and>
   tao_float opaque_ops ''n/a'' = None \<and> str_float opaque_ops ''n/a'' = None \<and>
   tao_float opaque_ops ''?'' = None \<and> str_float opaque_ops ''?'' = None \<and>
   to_float opaque_ops ''n/a'' = Finite 0 \<and> to_float opaque_ops ''?'' = Finite 0 \<and>
   \<not> compare_balances opaque_ops ''n/a'' ''?'' \<and> balance_gate opaque_ops (Some ''n/a'') ''?''"
proof -
  have h: "typed_lt opaque_ops ''n/a'' ''?'' = None"
    "tao_float opaque_ops ''n/a'' = None" "str_float opaque_ops ''n/a'' = None"
    "tao_float opaque_ops ''?'' = None" "str_float opaque_ops ''?'' = None"
    by (simp_all add: opaque_ops_def)
  from compare_balances_both_unreadable [OF h] h show ?thesis by simp
qed

section \<open>The records of a cycle\<close>

lemma submits_for_balance_events: "submits_for n (balance_events w) = []"
  by (simp add: submits_for_def balance_events_def split: option.splits)

lemma submit_one_effect:
  "records_for n (fst (snd (submit_one ops st c ob w (sub, tr)))) =
     records_for n sub @
     (if name w = n \<and> attempted ops st c (w, ob) then [(name w, try_register st w)] else [])
   \<and>
   submits_for n (snd (snd (submit_one ops st c ob w (sub, tr)))) =
     submits_for n tr @
     (if name w = n \<and> attempted ops st c (w, ob) then [Submit (name w)] else [])"
proof -
  have b: "filter (\<lambda>e. e = Submit n) (balance_events w) = []"
    using submits_for_balance_events [of n w] by (simp add: submits_for_def)
  show ?thesis
    by (auto simp: submit_one_result attempted_def records_for_def submits_for_def b)
qed

lemma run_tasks_other:
  "n \<notin> set (map (name \<circ> fst) ts)
   \<Longrightarrow> records_for n (fst (run_tasks ops st c ts (sub, tr))) = records_for n sub \<and>
       submits_for n (snd (run_tasks ops st c ts (sub, tr))) = submits_for n tr"
proof (induction ts arbitrary: sub tr)
  case Nil
  then show ?case by simp
next
  case (Cons t ts)
  obtain w ob where t: "t = (w, ob)" by (cases t)
  obtain r sub' tr' where s: "submit_one ops st c ob w (sub, tr) = (r, sub', tr')"
    by (cases "submit_one ops st c ob w (sub, tr)")
  have ne: "name w \<noteq> n" using Cons.prems t by auto
  from submit_one_effect [of n ops st c ob w sub tr] s ne
  have e: "records_for n sub' = records_for n sub" "submits_for n tr' = submits_for n tr"
    by simp_all
  have "records_for n (fst (run_tasks ops st c ts (sub', tr'))) = records_for n sub' \<and>
        submits_for n (snd (run_tasks ops st c ts (sub', tr'))) = submits_for n tr'"
    using Cons.IH Cons.prems by simp
  then show ?case using t s e by simp
qed

lemma run_tasks_own:
  "distinct (map (name \<circ> fst) ts) \<Longrightarrow> (w, ob) \<in> set ts
   \<Longrightarrow> records_for (name w) (fst (run_tasks ops st c ts (sub, tr))) =
         records_for (name w) sub @
         (if attempted ops st c (w, ob) then [(name w, try_register st w)] else []) \<and>
       submits_for (name w) (snd (run_tasks ops st c ts (sub, tr))) =
         submits_for (name w) tr @
         (if attempted ops st c (w, ob) then [Submit (name w)] else [])"
proof (induction ts arbitrary: sub tr)
  case Nil
  then show ?case by simp
next
  case (Cons t ts)
  obtain w1 ob1 where t: "t = (w1, ob1)" by (cases t)
  obtain r sub' tr' where s: "submit_one ops st c ob1 w1 (sub, tr) = (r, sub', tr')"
    by (cases "submit_one ops st c ob1 w1 (sub, tr)")
  note eff = submit_one_effect [of "name w" ops st c ob1 w1 sub tr]
  show ?case
  proof (cases "(w, ob) = (w1, ob1)")
    case True
    then have "name w \<notin> set (map (name \<circ> fst) ts)" using Cons.prems(1) t by auto
    then have "records_for (name w) (fst (run_tasks ops st c ts (sub', tr')))
                 = records_for (name w) sub' \<and>
               submits_for (name w) (snd (run_tasks ops st c ts (sub', tr')))
                 = submits_for (name w) tr'"
      by (rule run_tasks_other)
    then show ?thesis using t s eff True by simp
  next
    case False
    then have mem: "(w, ob) \<in> set ts" using Cons.prems(2) t by auto
    then have "(name \<circ> fst) (w, ob) \<in> (name \<circ> fst) ` set ts" by (rule imageI)
    then have "name w \<in> set (map (name \<circ> fst) ts)" by simp
    moreover have "name w1 \<notin> set (map (name \<circ> fst) ts)" using Cons.prems(1) t by simp
    ultimately have ne: "name w1 \<noteq> name w" by metis
    have "records_for (name w) (fst (run_tasks ops st c ts (sub', tr'))) =
         records_for (name w) sub' @
         (if attempted ops st c (w, ob) then [(name w, try_register st w)] else []) \<and>
       submits_for (name w) (snd (run_tasks ops st c ts (sub', tr'))) =
         submits_for (name w) tr' @
         (if attempted ops st c (w, ob) then [Submit (name w)] else [])"
      using Cons.IH mem Cons.prems(1) by simp
    moreover have "records_for (name w) sub' = records_for (name w) sub"
      "submits_for (name w) tr' = submits_for (name w) tr"
      using eff s ne by simp_all
    ultimately show ?thesis using t s by simp
  qed
qed

lemma dispatch_prefix: "\<exists>rest. wos = dispatch wos @ rest"
  by (induction wos rule: dispatch.induct) auto

lemma dispatch_distinct:
  assumes "distinct (map (name \<circ> fst) wos)"
  shows "distinct (map (name \<circ> fst) (dispatch wos))"
proof -
  obtain rest where "wos = dispatch wos @ rest" using dispatch_prefix by blast
  then have "map (name \<circ> fst) wos
               = map (name \<circ> fst) (dispatch wos) @ map (name \<circ> fst) rest"
    by (metis map_append)
  then show ?thesis using assms by (metis distinct_append)
qed

lemma dispatch_notin:
  assumes "distinct (map (name \<circ> fst) wos)" and "(w, ob) \<in> set wos"
    and "(w, ob) \<notin> set (dispatch wos)"
  shows "name w \<notin> set (map (name \<circ> fst) (dispatch wos))"
proof -
  obtain rest where r: "wos = dispatch wos @ rest" using dispatch_prefix by blast
  then have "set wos = set (dispatch wos) \<union> set rest" by (metis set_append)
  then have "(w, ob) \<in> set rest" using assms(2,3) by blast
  then have "(name \<circ> fst) (w, ob) \<in> (name \<circ> fst) ` set rest" by (rule imageI)
  then have "name w \<in> set (map (name \<circ> fst) rest)" by simp
  moreover have "distinct (map (name \<circ> fst) (dispatch wos) @ map (name \<circ> fst) rest)"
    using assms(1) r by (metis map_append)
  ultimately show ?thesis by auto
qed

text \<open>
  C4, as the code has it. Let the wallets handed to the coordinator have distinct
  names and let the dispatched tasks run in any order. A wallet gets exactly one
  record, \<^verbatim>\<open>(name, ok, info)\<close> with the outcome of its submission, and submits
  exactly once, when it was dispatched, its task started before the signal and the
  deadline, and the balance gate let it through; otherwise it gets no record at all
  and does not submit. No wallet gets more than one record.
\<close>

theorem one_record_per_attempt:
  assumes "distinct (map (name \<circ> fst) wos)"
    and "mset ts = mset (dispatch wos)"
    and "(w, ob) \<in> set wos"
  shows "records_for (name w) (fst (run_tasks ops st c ts ([], tr))) =
           (if (w, ob) \<in> set (dispatch wos) \<and> attempted ops st c (w, ob)
            then [(name w, try_register st w)] else []) \<and>
         length (records_for (name w) (fst (run_tasks ops st c ts ([], tr)))) \<le> 1 \<and>
         submits_for (name w) (snd (run_tasks ops st c ts ([], tr))) =
           submits_for (name w) tr @
           (if (w, ob) \<in> set (dispatch wos) \<and> attempted ops st c (w, ob)
            then [Submit (name w)] else [])"
proof -
  have m: "mset (map (name \<circ> fst) ts) = mset (map (name \<circ> fst) (dispatch wos))"
    using assms(2) by (metis mset_map)
  have d: "distinct (map (name \<circ> fst) ts)"
    using dispatch_distinct[OF assms(1)] m by (metis mset_eq_imp_distinct_iff)
  have s: "set ts = set (dispatch wos)" using assms(2) by (metis mset_eq_setD)
  have e: "records_for (name w) (fst (run_tasks ops st c ts ([], tr))) =
           (if (w, ob) \<in> set (dispatch wos) \<and> attempted ops st c (w, ob)
            then [(name w, try_register st w)] else []) \<and>
         submits_for (name w) (snd (run_tasks ops st c ts ([], tr))) =
           submits_for (name w) tr @
           (if (w, ob) \<in> set (dispatch wos) \<and> attempted ops st c (w, ob)
            then [Submit (name w)] else [])"
  proof (cases "(w, ob) \<in> set (dispatch wos)")
    case True
    then have "(w, ob) \<in> set ts" using s by simp
    from run_tasks_own[OF d this, of ops st c "[]" tr] True show ?thesis
      by (simp add: records_for_def)
  next
    case False
    have "name w \<notin> set (map (name \<circ> fst) (dispatch wos))"
      using dispatch_notin[OF assms(1) assms(3) False] .
    then have "name w \<notin> set (map (name \<circ> fst) ts)" using m by (metis mset_eq_setD)
    from run_tasks_other[OF this, of ops st c "[]" tr] False show ?thesis
      by (simp add: records_for_def)
  qed
  then show ?thesis by simp
qed

theorem one_record_per_attempt_witness:
  "distinct (map (name \<circ> fst) [(poor_wallet, go_obs), (rich_wallet, go_obs)]) \<and>
   mset [(rich_wallet, go_obs), (poor_wallet, go_obs)]
     = mset (dispatch [(poor_wallet, go_obs), (rich_wallet, go_obs)]) \<and>
   (rich_wallet, go_obs) \<in> set [(poor_wallet, go_obs), (rich_wallet, go_obs)] \<and>
   (poor_wallet, go_obs) \<in> set [(poor_wallet, go_obs), (rich_wallet, go_obs)] \<and>
   records_for (name rich_wallet)
     (fst (run_tasks sample_ops ex_st (typed_sample 2000000000 2)
             [(rich_wallet, go_obs), (poor_wallet, go_obs)] ([], [])))
     = [(''cold_2'', True, Res True)] \<and>
   submits_for (name rich_wallet)
     (snd (run_tasks sample_ops ex_st (typed_sample 2000000000 2)
             [(rich_wallet, go_obs), (poor_wallet, go_obs)] ([], [])))
     = [Submit ''cold_2''] \<and>
   records_for (name poor_wallet)
     (fst (run_tasks sample_ops ex_st (typed_sample 2000000000 2)
             [(rich_wallet, go_obs), (poor_wallet, go_obs)] ([], [])))
     = [] \<and>
   submits_for (name poor_wallet)
     (snd (run_tasks sample_ops ex_st (typed_sample 2000000000 2)
             [(rich_wallet, go_obs), (poor_wallet, go_obs)] ([], [])))
     = []"
proof -
  let ?c = "typed_sample 2000000000 2"
  have h1: "distinct (map (name \<circ> fst) [(poor_wallet, go_obs), (rich_wallet, go_obs)])"
    by (simp add: poor_wallet_def rich_wallet_def)
  have h2: "mset [(rich_wallet, go_obs), (poor_wallet, go_obs)]
              = mset (dispatch [(poor_wallet, go_obs), (rich_wallet, go_obs)])"
    by (simp add: go_obs_def)
  have h3: "(rich_wallet, go_obs) \<in> set [(poor_wallet, go_obs), (rich_wallet, go_obs)]"
    by simp
  have h4: "(poor_wallet, go_obs) \<in> set [(poor_wallet, go_obs), (rich_wallet, go_obs)]"
    by simp
  have a: "attempted sample_ops ex_st ?c (rich_wallet, go_obs)"
    by (simp add: attempted_def go_obs_def balance_gate_def get_wallet_balance_def
          compare_balances_def sample_ops_def typed_sample_def ex_st_def rich_wallet_def)
  have b: "\<not> attempted sample_ops ex_st ?c (poor_wallet, go_obs)"
    by (simp add: attempted_def go_obs_def balance_gate_def get_wallet_balance_def
          compare_balances_def sample_ops_def typed_sample_def ex_st_def poor_wallet_def)
  have d: "(rich_wallet, go_obs) \<in> set (dispatch [(poor_wallet, go_obs), (rich_wallet, go_obs)])"
    by (simp add: go_obs_def)
  have r: "try_register ex_st rich_wallet = (True, Res True)"
    by (simp add: try_register_def ex_st_def)
  have n: "name rich_wallet = ''cold_2''"
    by (simp add: rich_wallet_def)
  have e: "submits_for (name rich_wallet) [] = []" "submits_for (name poor_wallet) [] = []"
    by (simp_all add: submits_for_def)
  from one_record_per_attempt [OF h1 h2 h3, of sample_ops ex_st ?c "[]"] a d r n e
  have x: "records_for (name rich_wallet)
     (fst (run_tasks sample_ops ex_st ?c [(rich_wallet, go_obs), (poor_wallet, go_obs)] ([], [])))
     = [(''cold_2'', True, Res True)]"
    "submits_for (name rich_wallet)
     (snd (run_tasks sample_ops ex_st ?c [(rich_wallet, go_obs), (poor_wallet, go_obs)] ([], [])))
     = [Submit ''cold_2'']"
    by simp_all
  from one_record_per_attempt [OF h1 h2 h4, of sample_ops ex_st ?c "[]"] b e
  have y: "records_for (name poor_wallet)
     (fst (run_tasks sample_ops ex_st ?c [(rich_wallet, go_obs), (poor_wallet, go_obs)] ([], [])))
     = []"
    "submits_for (name poor_wallet)
     (snd (run_tasks sample_ops ex_st ?c [(rich_wallet, go_obs), (poor_wallet, go_obs)] ([], [])))
     = []"
    by simp_all
  from h1 h2 h3 h4 x y show ?thesis by blast
qed

text \<open>C4 as stated fails: a wallet whose balance is below the cost is dispatched, its
  task returns without submitting, and the list of records has no entry for it, where
  the claim has one with outcome Skipped.\<close>

theorem skipped_wallet_has_no_record:
  "dispatch [(poor_wallet, go_obs)] = [(poor_wallet, go_obs)] \<and>
   \<not> balance_gate sample_ops (get_wallet_balance ex_st poor_wallet) (typed_sample 2000000000 2) \<and>
   run_tasks sample_ops ex_st (typed_sample 2000000000 2) [(poor_wallet, go_obs)] ([], [])
     = ([], [BalanceQuery ''5Cpoor'']) \<and>
   records_for (name poor_wallet)
     (fst (run_tasks sample_ops ex_st (typed_sample 2000000000 2)
             [(poor_wallet, go_obs)] ([], []))) = []"
  by (simp add: go_obs_def submit_one_def balance_gate_def get_wallet_balance_def
        compare_balances_def sample_ops_def typed_sample_def ex_st_def poor_wallet_def
        records_for_def balance_events_def)

section \<open>The success signal and the watcher\<close>

lemma set_success_set: "success_event sg \<Longrightarrow> set_success sg p = sg"
  by (simp add: set_success_def)

lemma set_success_event: "success_event (set_success sg p)"
  by (simp add: set_success_def)

lemma foldl_set_success_set: "success_event sg \<Longrightarrow> foldl set_success sg ps = sg"
  by (induction ps) (simp_all add: set_success_set)

lemma count_writes_set: "success_event sg \<Longrightarrow> count_writes sg ps = 0"
  by (induction ps) (simp_all add: set_success_set)

lemma count_writes_le: "count_writes sg ps \<le> 1"
  by (cases ps) (simp_all add: count_writes_set set_success_event)

lemma watch_loop_set: "success_event sg \<Longrightarrow> watch_loop st ws n tick sg = sg"
  by (cases n) simp_all

text \<open>
  C5. Each setter tests and writes the signal while it holds the lock, so the setters
  of a cycle act one after the other in the order \<open>p # ps\<close> in which they take it.
  Whatever that order and whatever state \<open>sg\<close> the signal starts in, at most one of
  them writes; from a fresh signal the payload of the first one is what remains, and
  a signal that is set is left as it is by every later setter and by the watcher's
  loop.
\<close>

theorem success_signal_set_once:
  "count_writes sg ps \<le> 1 \<and>
   foldl set_success fresh_signal (p # ps) = \<lparr>success = Some p, success_event = True\<rparr> \<and>
   (success_event sg \<longrightarrow>
      foldl set_success sg ps = sg \<and> count_writes sg ps = 0 \<and>
      watch_loop st wallets n tick sg = sg)"
proof -
  have "set_success fresh_signal p = \<lparr>success = Some p, success_event = True\<rparr>"
    by (simp add: set_success_def fresh_signal_def)
  then have "foldl set_success fresh_signal (p # ps)
               = \<lparr>success = Some p, success_event = True\<rparr>"
    using foldl_set_success_set[of "set_success fresh_signal p" ps]
    by (simp add: set_success_event)
  moreover have "count_writes sg ps \<le> 1" by (rule count_writes_le)
  moreover have "success_event sg \<longrightarrow>
      foldl set_success sg ps = sg \<and> count_writes sg ps = 0 \<and>
      watch_loop st wallets n tick sg = sg"
    by (simp add: foldl_set_success_set count_writes_set watch_loop_set)
  ultimately show ?thesis by blast
qed

theorem success_signal_set_once_witness:
  "success_event \<lparr>success = Some (''cold_2'', 7), success_event = True\<rparr> \<and>
   foldl set_success \<lparr>success = Some (''cold_2'', 7), success_event = True\<rparr>
     [(''cold_1'', 3), (''cold_3'', 9)]
     = \<lparr>success = Some (''cold_2'', 7), success_event = True\<rparr> \<and>
   watch_loop ex_st [rich_wallet] 3 0 \<lparr>success = Some (''cold_2'', 7), success_event = True\<rparr>
     = \<lparr>success = Some (''cold_2'', 7), success_event = True\<rparr> \<and>
   foldl set_success fresh_signal [(''cold_2'', 7), (''cold_1'', 3), (''cold_3'', 9)]
     = \<lparr>success = Some (''cold_2'', 7), success_event = True\<rparr>"
proof -
  have e: "success_event \<lparr>success = Some (''cold_2'', 7), success_event = True\<rparr>"
    by simp
  from success_signal_set_once
    [of "\<lparr>success = Some (''cold_2'', 7), success_event = True\<rparr>"
        "[(''cold_1'', 3), (''cold_3'', 9)]" "(''cold_2'', 7)" ex_st "[rich_wallet]" 3 0] e
  show ?thesis by blast
qed

text \<open>
  C10. When the direct uid query for a hotkey raises and the fallback check answers
  true, the lookup returns 1, not an index read from the chain; a watcher that meets
  this wallet first sets the signal with index 1, and that is the winner reported.
  A hotkey whose direct query answers uid 0 is not taken for a success, so for a
  hotkey registered at uid 0 the fallback's answer cannot be told from a success.
\<close>

theorem fallback_uid_is_sentinel:
  assumes "get_uid_for_hotkey_on_subnet st tick hot = Raises"
    and "is_hotkey_registered_on_subnet st tick hot = Returns True"
    and "hotkey_ss58 w = Some hot"
  shows "get_uid_for_hotkey st tick hot = Some 1 \<and>
         watch_tick st tick (w # rest) fresh_signal
           = \<lparr>success = Some (name w, 1), success_event = True\<rparr> \<and>
         winner (watch_loop st (w # rest) (Suc n) tick fresh_signal) = Some (name w, 1) \<and>
         (get_uid_for_hotkey_on_subnet st0 tick hot = Returns (Some 0) \<longrightarrow>
            get_uid_for_hotkey st0 tick hot = Some 0 \<and>
            watch_tick st0 tick [w] fresh_signal = fresh_signal \<and>
            winner (watch_tick st0 tick [w] fresh_signal) = None)"
proof -
  have u: "get_uid_for_hotkey st tick hot = Some 1"
    using assms by (simp add: get_uid_for_hotkey_def)
  have t: "watch_tick st tick (w # rest) fresh_signal
             = \<lparr>success = Some (name w, 1), success_event = True\<rparr>"
    using assms u by (simp add: set_success_def fresh_signal_def)
  have "watch_loop st (w # rest) (Suc n) tick fresh_signal
          = \<lparr>success = Some (name w, 1), success_event = True\<rparr>"
    using t watch_loop_set[of "\<lparr>success = Some (name w, 1), success_event = True\<rparr>"]
    by (simp add: fresh_signal_def)
  then have l: "winner (watch_loop st (w # rest) (Suc n) tick fresh_signal) = Some (name w, 1)"
    by (simp add: winner_def)
  have z: "get_uid_for_hotkey st0 tick hot = Some 0 \<and>
           watch_tick st0 tick [w] fresh_signal = fresh_signal \<and>
           winner (watch_tick st0 tick [w] fresh_signal) = None"
    if "get_uid_for_hotkey_on_subnet st0 tick hot = Returns (Some 0)"
    using that assms(3) by (simp add: get_uid_for_hotkey_def winner_def fresh_signal_def)
  from u t l z show ?thesis by blast
qed

theorem fallback_uid_is_sentinel_witness:
  "get_uid_for_hotkey_on_subnet ex_st 0 ''5Hrich'' = Raises \<and>
   is_hotkey_registered_on_subnet ex_st 0 ''5Hrich'' = Returns True \<and>
   hotkey_ss58 rich_wallet = Some ''5Hrich'' \<and>
   get_uid_for_hotkey_on_subnet zero_st 0 ''5Hrich'' = Returns (Some 0) \<and>
   get_uid_for_hotkey ex_st 0 ''5Hrich'' = Some 1 \<and>
   winner (watch_loop ex_st [rich_wallet, poor_wallet] (Suc 0) 0 fresh_signal)
     = Some (name rich_wallet, 1) \<and>
   winner (watch_tick zero_st 0 [rich_wallet] fresh_signal) = None"
proof -
  have h1: "get_uid_for_hotkey_on_subnet ex_st 0 ''5Hrich'' = Raises"
    by (simp add: ex_st_def)
  have h2: "is_hotkey_registered_on_subnet ex_st 0 ''5Hrich'' = Returns True"
    by (simp add: ex_st_def)
  have h3: "hotkey_ss58 rich_wallet = Some ''5Hrich''"
    by (simp add: rich_wallet_def)
  have h4: "get_uid_for_hotkey_on_subnet zero_st 0 ''5Hrich'' = Returns (Some 0)"
    by (simp add: zero_st_def)
  from fallback_uid_is_sentinel [OF h1 h2 h3, of "[poor_wallet]" 0 zero_st] h1 h2 h3 h4
  show ?thesis by blast
qed

section \<open>Waiting for the dispatched tasks\<close>

lemma wait_loop_inv:
  assumes "wait_loop pl k fs s = Some r"
  shows "k \<le> snd (snd r) \<and> (\<not> fst r \<longrightarrow> fst (snd r) = []) \<and>
         (\<forall>f \<in> set fs. f \<in> set (fst (snd r))
                         \<or> (\<exists>j\<ge>k. j < snd (snd r) \<and> done_at pl j f))"
proof (rule wait_loop.raw_induct
    [where P = "\<lambda>pl k fs s r. k \<le> snd (snd r) \<and> (\<not> fst r \<longrightarrow> fst (snd r) = []) \<and>
        (\<forall>f \<in> set fs. f \<in> set (fst (snd r))
                        \<or> (\<exists>j\<ge>k. j < snd (snd r) \<and> done_at pl j f))"])
  show "wait_loop pl k fs s = Some r" by (rule assms)
next
  fix wl pl k fs s r
  assume ih: "\<And>pl k fs s r. wl pl k fs s = Some r \<Longrightarrow>
          k \<le> snd (snd r) \<and> (\<not> fst r \<longrightarrow> fst (snd r) = []) \<and>
          (\<forall>f \<in> set fs. f \<in> set (fst (snd r))
                          \<or> (\<exists>j\<ge>k. j < snd (snd r) \<and> done_at pl j f))"
    and eq: "(if fs \<noteq> [] \<and> \<not> s
              then wl pl (Suc k) (filter (\<lambda>f. \<not> done_at pl k f) fs)
                     (scan_done pl (filter (done_at pl k) fs) s)
              else Some (s, fs, k)) = Some r"
  show "k \<le> snd (snd r) \<and> (\<not> fst r \<longrightarrow> fst (snd r) = []) \<and>
        (\<forall>f \<in> set fs. f \<in> set (fst (snd r))
                        \<or> (\<exists>j\<ge>k. j < snd (snd r) \<and> done_at pl j f))"
  proof (cases "fs \<noteq> [] \<and> \<not> s")
    case False
    with eq have "r = (s, fs, k)" by auto
    with False show ?thesis by auto
  next
    case True
    with eq have "wl pl (Suc k) (filter (\<lambda>f. \<not> done_at pl k f) fs)
                     (scan_done pl (filter (done_at pl k) fs) s) = Some r" by simp
    from ih[OF this] have a: "\<not> fst r \<longrightarrow> fst (snd r) = []"
      and lt: "Suc k \<le> snd (snd r)"
      and c: "\<forall>f \<in> set (filter (\<lambda>f. \<not> done_at pl k f) fs).
                 f \<in> set (fst (snd r)) \<or> (\<exists>j\<ge>Suc k. j < snd (snd r) \<and> done_at pl j f)"
      by auto
    have "f \<in> set (fst (snd r)) \<or> (\<exists>j\<ge>k. j < snd (snd r) \<and> done_at pl j f)"
      if f: "f \<in> set fs" for f
    proof (cases "done_at pl k f")
      case False
      with f c have "f \<in> set (fst (snd r))
                       \<or> (\<exists>j\<ge>Suc k. j < snd (snd r) \<and> done_at pl j f)" by simp
      then show ?thesis by (meson Suc_leD)
    next
      case True
      moreover have "k < snd (snd r)" using lt by simp
      ultimately show ?thesis by blast
    qed
    then show ?thesis using a lt by auto
  qed
qed

lemma drain_futures_done:
  assumes "drain_futures pl k fs = Some k'"
  shows "k \<le> k' \<and> list_all (done_at pl k') fs"
proof (rule drain_futures.raw_induct
    [where P = "\<lambda>pl k fs k'. k \<le> k' \<and> list_all (done_at pl k') fs"])
  show "drain_futures pl k fs = Some k'" by (rule assms)
next
  fix df pl k fs k'
  assume ih: "\<And>pl k fs k'. df pl k fs = Some k'
                 \<Longrightarrow> k \<le> k' \<and> list_all (done_at pl k') fs"
    and eq: "(if list_all (done_at pl k) fs then Some k else df pl (Suc k) fs) = Some k'"
  show "k \<le> k' \<and> list_all (done_at pl k') fs"
  proof (cases "list_all (done_at pl k) fs")
    case True
    with eq show ?thesis by simp
  next
    case False
    with eq have "df pl (Suc k) fs = Some k'" by simp
    from ih[OF this] show ?thesis by simp
  qed
qed

text \<open>
  C6, as the code has it. In main.py the loop over \<^verbatim>\<open>as_completed\<close> ends only when
  every dispatched future has finished. In monkey.py the loop around \<^verbatim>\<open>wait\<close> ends
  at the first success or when no future is left: when it ends without a success,
  which is the only case in which a next cycle starts, every dispatched future was
  seen finished at some look and none is pending. What is pending when it ends with
  a success is not waited for.
\<close>

theorem tasks_finished_unless_success:
  "(wait_loop pl 0 fs False = Some (s, pend, k) \<and> \<not> s
      \<longrightarrow> pend = [] \<and> (\<forall>f \<in> set fs. \<exists>j<k. done_at pl j f)) \<and>
   (drain_futures pl 0 fs = Some k' \<longrightarrow> (\<forall>f \<in> set fs. done_at pl k' f))"
proof -
  have "pend = [] \<and> (\<forall>f \<in> set fs. \<exists>j<k. done_at pl j f)"
    if w: "wait_loop pl 0 fs False = Some (s, pend, k)" and n: "\<not> s"
  proof -
    from wait_loop_inv[OF w] n have p: "pend = []"
      and a: "\<forall>f \<in> set fs. f \<in> set pend \<or> (\<exists>j\<ge>0. j < k \<and> done_at pl j f)" by auto
    from a p show ?thesis by auto
  qed
  moreover have "\<forall>f \<in> set fs. done_at pl k' f" if "drain_futures pl 0 fs = Some k'"
    using drain_futures_done[OF that] by (simp add: list_all_iff)
  ultimately show ?thesis by blast
qed

theorem tasks_finished_unless_success_witness:
  "wait_loop slow_pool 0 [0, 1] False = Some (False, [], 3) \<and>
   (\<exists>j<3. done_at slow_pool j 0) \<and> (\<exists>j<3. done_at slow_pool j 1) \<and>
   drain_futures slow_pool 0 [0, 1] = Some 2 \<and>
   done_at slow_pool 2 0 \<and> done_at slow_pool 2 1"
proof -
  have w: "wait_loop slow_pool 0 [0, 1] False = Some (False, [], 3)"
    by (simp add: wait_loop.simps slow_pool_def)
  have d: "drain_futures slow_pool 0 [0, 1] = Some 2"
    by (simp add: drain_futures.simps slow_pool_def)
  from tasks_finished_unless_success [of slow_pool "[0, 1]" False "[]" 3 2] w d
  show ?thesis by simp
qed

text \<open>C6 as stated fails in monkey.py: future 0 succeeds at the first look while
  future 1 is still running; the loop ends with the flag set and future 1 left in
  \<^verbatim>\<open>futures\<close>, never seen finished.\<close>

theorem pending_task_left_on_success:
  "wait_loop race_pool 0 [0, 1] False = Some (True, [1], 1) \<and> \<not> done_at race_pool 0 1"
  by (simp add: wait_loop.simps race_pool_def)

section \<open>No wallets\<close>

lemma load_wallets_empty:
  "(load_wallets prov ns = []) = list_all (\<lambda>n. load_wallet prov n = Raises) ns"
  by (induction ns) (auto split: resp.splits)

lemma main_setup_reaches_loading:
  assumes "connect st = Returns u" and "get_subnet_burn_cost st = Returns c"
    and "wait_for_next_epoch_start st [Connect, CostQuery] = Some (Inr (), tr)"
  shows "main_setup prov st =
           Some (if load_wallets prov COLDKEY_NAMES = [] then NoWallets
                 else Ready c (load_wallets prov COLDKEY_NAMES), tr)"
  using assms by (simp add: main_setup_def USE_EPOCH_START_def Let_def)

text \<open>
  C8, as the code has it. When no wallet loads and \<^verbatim>\<open>main\<close> gets as far as loading
  them (the connection and the cost query succeed and the scheduler returns), it
  returns at line 169 without an exception, and by then it has connected, asked for the
  cost and let the scheduler ask for the height and the metagraph. It makes no call of
  the race: no balance query and no submission. However far it gets, with no wallet
  loadable it ends in that return or in an exception of the set-up, never in the race,
  and it ends in that return only when no wallet loaded.
\<close>

theorem no_wallets_after_setup_calls:
  assumes "load_wallets prov COLDKEY_NAMES = []"
  shows "(connect st = Returns u \<and> get_subnet_burn_cost st = Returns c \<and>
          wait_for_next_epoch_start st [Connect, CostQuery] = Some (Inr (), tr)
            \<longrightarrow> main_setup prov st = Some (NoWallets, tr) \<and>
                (\<exists>rest. tr = [Connect, CostQuery, HeightQuery, MetagraphQuery] @ rest) \<and>
                race_calls tr = []) \<and>
         (main_setup prov st = Some (r, tr') \<longrightarrow>
            (r = NoWallets \<or> (\<exists>e. r = SetupRaised e)) \<and> race_calls tr' = []) \<and>
         (main_setup prov' st = Some (NoWallets, tr') \<longrightarrow>
            load_wallets prov' COLDKEY_NAMES = [])"
proof (intro conjI impI)
  assume h: "connect st = Returns u \<and> get_subnet_burn_cost st = Returns c \<and>
             wait_for_next_epoch_start st [Connect, CostQuery] = Some (Inr (), tr)"
  then have w: "wait_for_next_epoch_start st [Connect, CostQuery] = Some (Inr (), tr)"
    by simp
  from h show "main_setup prov st = Some (NoWallets, tr)"
    using main_setup_reaches_loading [of st u c tr prov] assms by simp
  from wait_epoch_extends[OF w] obtain rest where
    rest: "tr = [Connect, CostQuery] @ [HeightQuery, MetagraphQuery] @ rest"
      "race_calls rest = []"
    by blast
  then show "\<exists>rest. tr = [Connect, CostQuery, HeightQuery, MetagraphQuery] @ rest"
    by simp
  from rest show "race_calls tr = []" by (simp add: race_calls_def)
next
  assume m: "main_setup prov st = Some (r, tr')"
  show "r = NoWallets \<or> (\<exists>e. r = SetupRaised e)"
    using m assms
    by (auto simp: main_setup_def USE_EPOCH_START_def Let_def
             split: resp.splits option.splits sum.splits)
  show "race_calls tr' = []"
  proof (cases "\<exists>c. connect st = Returns () \<and> get_subnet_burn_cost st = Returns c")
    case False
    with m have "tr' = [Connect] \<or> tr' = [Connect, CostQuery]"
      by (auto simp: main_setup_def split: resp.splits)
    then show ?thesis by (auto simp: race_calls_def)
  next
    case True
    with m obtain r' where
      "wait_for_next_epoch_start st [Connect, CostQuery] = Some (r', tr')"
      by (auto simp: main_setup_def USE_EPOCH_START_def Let_def
               split: option.splits sum.splits if_splits)
    from wait_epoch_extends[OF this] obtain rest where
      "tr' = [Connect, CostQuery] @ [HeightQuery, MetagraphQuery] @ rest" "race_calls rest = []"
      by blast
    then show ?thesis by (simp add: race_calls_def)
  qed
next
  assume "main_setup prov' st = Some (NoWallets, tr')"
  then show "load_wallets prov' COLDKEY_NAMES = []"
    by (auto simp: main_setup_def USE_EPOCH_START_def Let_def
             split: resp.splits option.splits sum.splits if_splits)
qed

theorem no_wallets_after_setup_calls_witness:
  "load_wallets no_keys COLDKEY_NAMES = [] \<and>
   connect ex_st = Returns () \<and>
   get_subnet_burn_cost ex_st = Returns (typed_sample 2000000000 2) \<and>
   wait_for_next_epoch_start ex_st [Connect, CostQuery]
     = Some (Inr (), [Connect, CostQuery, HeightQuery, MetagraphQuery]) \<and>
   main_setup no_keys ex_st
     = Some (NoWallets, [Connect, CostQuery, HeightQuery, MetagraphQuery]) \<and>
   race_calls [Connect, CostQuery, HeightQuery, MetagraphQuery] = []"
proof -
  let ?tr = "[Connect, CostQuery, HeightQuery, MetagraphQuery]"
  have l: "load_wallets no_keys COLDKEY_NAMES = []"
    by (simp add: COLDKEY_NAMES_def load_wallet_def no_keys_def)
  have c: "connect ex_st = Returns ()"
    "get_subnet_burn_cost ex_st = Returns (typed_sample 2000000000 2)"
    by (simp_all add: ex_st_def)
  have w: "wait_for_next_epoch_start ex_st [Connect, CostQuery] = Some (Inr (), ?tr)"
    by (simp add: wait_for_next_epoch_start_def Let_def current_block_def
          height_queries_def blocks_until_def ex_st_def)
  from no_wallets_after_setup_calls
         [OF l, of ex_st "()" "typed_sample 2000000000 2" ?tr NoWallets ?tr no_keys] c w
  have "main_setup no_keys ex_st = Some (NoWallets, ?tr)" "race_calls ?tr = []"
    by blast+
  with l c w show ?thesis by blast
qed

text \<open>C8 as stated fails: with no wallet loadable, \<^verbatim>\<open>main\<close> has already connected and
  made the cost, height and metagraph queries when it finds the list empty, and it
  then returns instead of raising.\<close>

theorem remote_calls_before_no_wallets:
  "load_wallets no_keys COLDKEY_NAMES = [] \<and>
   main_setup no_keys ex_st
     = Some (NoWallets, [Connect, CostQuery, HeightQuery, MetagraphQuery])"
  by (simp add: main_setup_def USE_EPOCH_START_def wait_for_next_epoch_start_def Let_def
        current_block_def height_queries_def blocks_until_def ex_st_def
        COLDKEY_NAMES_def load_wallet_def no_keys_def)

end
